theory Spec2Isabelle
  imports Main "HOL-Library.Word"
begin

unbundle bit_operations_syntax

section \<open>MTP::ConcurrentSender\<close>

text \<open>
  The header \<^verbatim>\<open>mtproto/concurrent_sender.h\<close> declares the sender, its request builders and the handler adapters; the
  bodies of the dispatcher entry points (\<open>senderRequestRegister\<close>, \<open>senderRequestDone\<close>,
  \<open>senderRequestFail\<close>, \<open>senderRequestCancel\<close>, \<open>senderRequestCancelAll\<close>), of
  \<open>RequestBuilder::send\<close> and of the transport-side functors are defined outside the
  header. The adapters are embedded from the header; the dispatcher is modelled from the
  specification and marked so.
\<close>

subsection \<open>Plain data\<close>

text \<open>
  \<open>mtpRequestId\<close>, \<open>mtpPrime\<close>, \<open>ShiftedDcId\<close> and \<open>TimeMs\<close> come from
  \<^verbatim>\<open>mtproto/core_types.h\<close>. A request id is only ever compared; \<open>bytes::const_span\<close> is a
  sequence of bytes and \<open>mtpPrime\<close> a 32-bit word.
\<close>

type_synonym mtpRequestId = int
type_synonym ShiftedDcId = int
type_synonym TimeMs = int
type_synonym byte = "8 word"
type_synonym mtpPrime = "32 word"
type_synonym bytes = "byte list"

datatype FailSkipPolicy = Simple | HandleFlood | HandleAll

text \<open>
  Modelled from the spec: \<open>RPCError\<close> is only forward-declared in the header. The
  specification treats it as an opaque value classified into a flood/rate-limit category
  and residual categories, some of which count as "handled elsewhere". The two
  classifications are carried by the value.
\<close>

record RPCError =
  flood_class :: bool
  handled_elsewhere :: bool
  description :: string

text \<open>
  Exceptions that can travel through the sender: a response that does not parse
  (\<open>data.read\<close> throws), a call of an empty \<open>FnMut\<close>, and whatever a user handler
  throws.
\<close>

datatype exn = DecodeFailure | BadFunctionCall | UserException nat

subsection \<open>What a handler can do\<close>

text \<open>
  A handler runs on the owner's context and may call back into the sender that is
  invoking it. The body of a user handler is a sequence of such calls: a delivery of a
  result or of an error for some request id (what the transport-side functors do once
  \<open>_run\<close> has brought them to the owner's context), a cancellation through
  \<open>request(id).cancel()\<close>, or a \<open>throw\<close>. The fail functor handed to the transport
  at \<open>send\<close> carries the request's \<open>FailSkipPolicy\<close>, so a fail delivery names it.
  Sending a further request is not among the calls: request ids are assigned by the
  transport and are not reused, so a new request does not touch the entries of the
  requests that are pending.
\<close>

datatype cmd =
    Throw exn
  | DeliverDone mtpRequestId bytes
  | DeliverFail FailSkipPolicy mtpRequestId RPCError
  | Cancel mtpRequestId

text \<open>
  The arguments a user handler was called with: \<open>DoneCall (Some id) (Some r)\<close> is a
  call \<open>handler(id, r)\<close>, \<open>DoneCall None (Some r)\<close> a call \<open>handler(r)\<close>,
  \<open>DoneCall (Some id) None\<close> a call \<open>handler(id)\<close> and \<open>DoneCall None None\<close> a call
  \<open>handler()\<close>; likewise for fail handlers.
\<close>

datatype 'r call =
    DoneCall "mtpRequestId option" "'r option"
  | FailCall "mtpRequestId option" "RPCError option"

text \<open>
  The code of a canonical callback: user statements, the point where a user handler is
  entered (\<open>Invoked\<close>, which only leaves a mark in the trace), and
  \<open>try { ... } catch (...) { }\<close>.
\<close>

datatype 'r code =
    Run cmd
  | Invoked "'r call"
  | TryCatchAll "'r code list"

text \<open>
  What an observer sees: a canonical done or fail callback fired for an id, an entry was
  removed without any callback, a user handler was called with given arguments.
\<close>

datatype 'r event =
    DoneFired mtpRequestId
  | FailFired mtpRequestId
  | Dropped mtpRequestId
  | Called "'r call"

text \<open>
  \<open>struct Handlers { DoneHandler done; FailHandler fail; }\<close>. A \<open>FnMut\<close> may be
  empty (\<open>None\<close>); the canonical callbacks take \<open>(requestId, result)\<close> and
  \<open>(requestId, error)\<close>.
\<close>

record 'r Handlers =
  done_cb :: "(mtpRequestId \<Rightarrow> bytes \<Rightarrow> 'r code list) option"
  fail_cb :: "(mtpRequestId \<Rightarrow> RPCError \<Rightarrow> 'r code list) option"

text \<open>
  The sender: \<open>base::flat_map<mtpRequestId, Handlers> _requests\<close>, and the trace of
  what has been observed so far.
\<close>

record 'r sender =
  requests :: "(mtpRequestId \<times> 'r Handlers) list"
  trace :: "'r event list"

definition registered :: "'r sender \<Rightarrow> mtpRequestId set" where
  "registered s = fst ` set (requests s)"

subsection \<open>The dispatcher\<close>

text \<open>
  Modelled from the spec: \<open>base::flat_map\<close> is declared outside the header. The
  registry is a mapping from request id to handlers with unique keys; taking an id gives
  the handlers stored under it and the registry without it.
\<close>

definition take_request ::
  "mtpRequestId \<Rightarrow> (mtpRequestId \<times> 'h) list \<Rightarrow> ('h \<times> (mtpRequestId \<times> 'h) list) option" where
  "take_request k reqs =
     (case map_of reqs k of
        None \<Rightarrow> None
      | Some h \<Rightarrow> Some (h, filter (\<lambda>p. fst p \<noteq> k) reqs))"

text \<open>
  Calling a \<open>FnMut\<close> (declared outside the header): an empty one throws, as an empty
  \<open>std::function\<close> does.
\<close>

definition call_fn :: "('a \<Rightarrow> 'b \<Rightarrow> 'r code list) option \<Rightarrow> 'a \<Rightarrow> 'b \<Rightarrow> 'r code list" where
  "call_fn f a b = (case f of None \<Rightarrow> [Run (Throw BadFunctionCall)] | Some g \<Rightarrow> g a b)"

text \<open>
  Modelled from the spec: the body of \<open>senderRequestDone\<close> is not in the header.
  \<open>deliverDone(id, rawBytes)\<close>: looks up id; if absent, no-op; if present, removes the
  entry first, then invokes the done callback. The result is the code of the callback
  that is to run next, and the sender as it is when that code starts.
\<close>

definition deliverDone :: "mtpRequestId \<Rightarrow> bytes \<Rightarrow> 'r sender \<Rightarrow> 'r code list \<times> 'r sender" where
  "deliverDone requestId result s =
     (case take_request requestId (requests s) of
        None \<Rightarrow> ([], s)
      | Some (h, rest) \<Rightarrow>
          (call_fn (done_cb h) requestId result,
           s\<lparr>requests := rest, trace := trace s @ [DoneFired requestId]\<rparr>))"

text \<open>
  Modelled from the spec: the suppressed set of each policy. \<open>Simple\<close> suppresses the
  classes handled elsewhere, at minimum the flood class; \<open>HandleFlood\<close> forwards the
  flood class in addition; \<open>HandleAll\<close> forwards everything.
\<close>

fun suppressed :: "FailSkipPolicy \<Rightarrow> RPCError \<Rightarrow> bool" where
  "suppressed Simple e = (flood_class e \<or> handled_elsewhere e)"
| "suppressed HandleFlood e = (handled_elsewhere e \<and> \<not> flood_class e)"
| "suppressed HandleAll e = False"

text \<open>
  Modelled from the spec: the bodies of \<open>senderRequestFail\<close> and of the fail functor
  are not in the header. \<open>deliverFail(id, error)\<close>: looks up id; if absent, no-op; if
  present, removes the entry, then applies the policy: if the error's class is in the
  suppressed set, the fail handler is not invoked; otherwise it is invoked once.
\<close>

definition deliverFail ::
  "FailSkipPolicy \<Rightarrow> mtpRequestId \<Rightarrow> RPCError \<Rightarrow> 'r sender \<Rightarrow> 'r code list \<times> 'r sender" where
  "deliverFail policy requestId error s =
     (case take_request requestId (requests s) of
        None \<Rightarrow> ([], s)
      | Some (h, rest) \<Rightarrow>
          if suppressed policy error
          then ([], s\<lparr>requests := rest, trace := trace s @ [Dropped requestId]\<rparr>)
          else (call_fn (fail_cb h) requestId error,
                s\<lparr>requests := rest, trace := trace s @ [FailFired requestId]\<rparr>))"

text \<open>
  Modelled from the spec: the body of \<open>senderRequestCancel\<close> is not in the header.
  \<open>cancel(id)\<close>: removes the entry (if present) without invoking either callback. The
  instruction to the transport is an external call and leaves the sender as it is.
\<close>

definition cancel :: "mtpRequestId \<Rightarrow> 'r sender \<Rightarrow> 'r sender" where
  "cancel requestId s =
     (case take_request requestId (requests s) of
        None \<Rightarrow> s
      | Some (h, rest) \<Rightarrow> s\<lparr>requests := rest, trace := trace s @ [Dropped requestId]\<rparr>)"

text \<open>\<open>SentRequestWrap::cancel\<close> and \<open>requestCanceller\<close> delegate to it.\<close>

definition SentRequestWrap_cancel :: "mtpRequestId \<Rightarrow> 'r sender \<Rightarrow> 'r sender" where
  "SentRequestWrap_cancel requestId s = cancel requestId s"

definition requestCanceller :: "mtpRequestId \<Rightarrow> 'r sender \<Rightarrow> 'r sender" where
  "requestCanceller requestId s = SentRequestWrap_cancel requestId s"

text \<open>
  Modelled from the spec: the bodies of \<open>senderRequestCancelAll\<close> and of the destructor
  are not in the header. \<open>cancelAll()\<close>: removes every remaining entry without invoking
  any callback.
\<close>

definition cancelAll :: "'r sender \<Rightarrow> 'r sender" where
  "cancelAll s = s\<lparr>requests := [], trace := trace s @ map (\<lambda>p. Dropped (fst p)) (requests s)\<rparr>"

datatype sender_error = AlreadyRegistered

text \<open>
  Modelled from the spec: the body of \<open>senderRequestRegister\<close> is not in the header.
  \<open>register(id, handlers)\<close>: inserts; fails if id already present.
\<close>

definition register ::
  "mtpRequestId \<Rightarrow> 'r Handlers \<Rightarrow> 'r sender \<Rightarrow> sender_error + 'r sender" where
  "register requestId h s =
     (if requestId \<in> registered s then Inl AlreadyRegistered
      else Inr (s\<lparr>requests := (requestId, h) # requests s\<rparr>))"

subsection \<open>Running callbacks\<close>

text \<open>
  Callbacks run on one context, one after the other, and a callback may re-enter the
  dispatcher. The pending work is a stack of frames: code still to run, and the ends of
  the \<open>try\<close> blocks that have been entered. A \<open>throw\<close> discards frames up to the end of
  the innermost entered \<open>try\<close> block; with none, the exception leaves the stack.
\<close>

datatype 'r frame = Code "'r code" | EndTry

fun unwind :: "'r frame list \<Rightarrow> 'r frame list option" where
  "unwind [] = None"
| "unwind (EndTry # fs) = Some fs"
| "unwind (Code c # fs) = unwind fs"

fun weight_code :: "'r code \<Rightarrow> nat" where
  "weight_code (Run c) = 1"
| "weight_code (Invoked c) = 1"
| "weight_code (TryCatchAll cs) = 2 + sum_list (map weight_code cs)"

fun weight_frame :: "'r frame \<Rightarrow> nat" where
  "weight_frame (Code c) = weight_code c"
| "weight_frame EndTry = 1"

definition weight :: "'r frame list \<Rightarrow> nat" where
  "weight fs = sum_list (map weight_frame fs)"

lemma weight_simps [simp]:
  "weight [] = 0"
  "weight (f # fs) = weight_frame f + weight fs"
  "weight (fs @ gs) = weight fs + weight gs"
  by (simp_all add: weight_def)

lemma weight_map_Code [simp]: "weight (map Code cs) = sum_list (map weight_code cs)"
  by (induction cs) simp_all

lemma unwind_weight: "unwind fs = Some fs' \<Longrightarrow> weight fs' < weight fs"
  by (induction fs rule: unwind.induct) auto

lemma take_request_shorter:
  "take_request k reqs = Some (h, rest) \<Longrightarrow> length rest < length reqs"
proof -
  assume t: "take_request k reqs = Some (h, rest)"
  then have m: "map_of reqs k = Some h" and r: "rest = filter (\<lambda>p. fst p \<noteq> k) reqs"
    by (auto simp: take_request_def split: option.splits)
  from m have "(k, h) \<in> set reqs" by (rule map_of_SomeD)
  then have "length (filter (\<lambda>p. fst p \<noteq> k) reqs) < length reqs"
    by (intro length_filter_less[of "(k, h)"]) simp_all
  with r show ?thesis by simp
qed

lemma deliverDone_measure:
  "deliverDone k b s = (cs, s') \<Longrightarrow>
     length (requests s') < length (requests s) \<or> (cs = [] \<and> s' = s)"
  by (auto simp: deliverDone_def split: option.splits dest: take_request_shorter)

lemma deliverFail_measure:
  "deliverFail p k e s = (cs, s') \<Longrightarrow>
     length (requests s') < length (requests s) \<or> (cs = [] \<and> s' = s)"
proof (cases "take_request k (requests s)")
  case None
  moreover assume "deliverFail p k e s = (cs, s')"
  ultimately show ?thesis by (simp add: deliverFail_def)
next
  case (Some hr)
  obtain h rest where hr: "hr = (h, rest)" by (cases hr)
  assume "deliverFail p k e s = (cs, s')"
  with Some hr have "requests s' = rest"
    by (auto simp: deliverFail_def split: if_splits)
  moreover from Some hr have "length rest < length (requests s)"
    by (simp add: take_request_shorter)
  ultimately show ?thesis by simp
qed

lemma cancel_measure: "length (requests (cancel k s)) \<le> length (requests s)"
proof (cases "take_request k (requests s)")
  case None
  then show ?thesis by (simp add: cancel_def)
next
  case (Some hr)
  obtain h rest where hr: "hr = (h, rest)" by (cases hr)
  from Some hr have "length rest < length (requests s)"
    by (simp add: take_request_shorter)
  with Some hr show ?thesis by (simp add: cancel_def)
qed

function exec :: "'r frame list \<Rightarrow> 'r sender \<Rightarrow> 'r sender \<times> exn option" where
  "exec [] s = (s, None)"
| "exec (EndTry # fs) s = exec fs s"
| "exec (Code (Invoked c) # fs) s = exec fs (s\<lparr>trace := trace s @ [Called c]\<rparr>)"
| "exec (Code (TryCatchAll cs) # fs) s = exec (map Code cs @ EndTry # fs) s"
| "exec (Code (Run (Throw e)) # fs) s =
     (case unwind fs of None \<Rightarrow> (s, Some e) | Some fs' \<Rightarrow> exec fs' s)"
| "exec (Code (Run (DeliverDone k b)) # fs) s =
     (case deliverDone k b s of (cs, s') \<Rightarrow> exec (map Code cs @ fs) s')"
| "exec (Code (Run (DeliverFail p k e)) # fs) s =
     (case deliverFail p k e s of (cs, s') \<Rightarrow> exec (map Code cs @ fs) s')"
| "exec (Code (Run (Cancel k)) # fs) s = exec fs (cancel k s)"
  by pat_completeness auto
termination
  apply (relation "measures [\<lambda>(fs, s). length (requests s), \<lambda>(fs, s). weight fs]")
  apply simp_all
  subgoal for fs fs' by (drule unwind_weight) simp
  subgoal for k b s cs s' using deliverDone_measure[of k b s cs s'] by auto
  subgoal for p k e s cs s' using deliverFail_measure[of p k e s cs s'] by auto
  subgoal for k s using cancel_measure[of k s] by auto
  done

subsection \<open>The request builder\<close>

text \<open>
  \<open>RequestBuilder\<close>: the serialized request, \<open>_dcId\<close>, \<open>_canWait\<close>, \<open>_handlers\<close>,
  \<open>_failSkipPolicy\<close> and \<open>_afterRequestId\<close>, with the default member initializers of
  the header. The pointer \<open>_sender\<close> is the sender that \<open>send\<close> is given.
\<close>

record 'r RequestBuilder =
  serialized :: "mtpPrime list"
  dcId :: ShiftedDcId
  canWait :: TimeMs
  handlers :: "'r Handlers"
  failSkipPolicy :: FailSkipPolicy
  afterRequestId :: mtpRequestId

definition new_RequestBuilder :: "mtpPrime list \<Rightarrow> 'r RequestBuilder" where
  "new_RequestBuilder request =
     \<lparr>serialized = request, dcId = 0, canWait = 0,
      handlers = \<lparr>done_cb = None, fail_cb = None\<rparr>,
      failSkipPolicy = Simple, afterRequestId = 0\<rparr>"

text \<open>
  \<open>reinterpret_cast<const mtpPrime*>(result.data())\<close> up to
  \<open>from + result.size() / sizeof(mtpPrime)\<close>: the whole 4-byte groups of the span, each
  read as one word (least significant byte first); up to three trailing bytes are not
  part of the range.
\<close>

definition prime_of_bytes :: "byte \<Rightarrow> byte \<Rightarrow> byte \<Rightarrow> byte \<Rightarrow> mtpPrime" where
  "prime_of_bytes a b c d =
     ucast a OR push_bit 8 (ucast b) OR push_bit 16 (ucast c) OR push_bit 24 (ucast d)"

fun primes :: "bytes \<Rightarrow> mtpPrime list" where
  "primes (a # b # c # d # rest) = prime_of_bytes a b c d # primes rest"
| "primes _ = []"

text \<open>
  \<open>setDoneHandler<Response>(invoke)\<close>. \<open>Response::read\<close> belongs to the response
  type, declared outside the header: it is the parameter \<open>read\<close>, and \<open>None\<close> is a
  \<open>read\<close> that throws. The canonical callback is the \<open>try\<close> block of the header,
  which holds the decoding and the call of \<open>invoke\<close>.
\<close>

definition setDoneHandler ::
  "(mtpPrime list \<Rightarrow> 'r option) \<Rightarrow> (mtpRequestId \<Rightarrow> 'r \<Rightarrow> 'r code list) \<Rightarrow>
   'r RequestBuilder \<Rightarrow> 'r RequestBuilder" where
  "setDoneHandler read invoke b =
     b\<lparr>handlers := (handlers b)\<lparr>done_cb := Some (\<lambda>requestId result.
        [TryCatchAll
          (case read (primes result) of
             None \<Rightarrow> [Run (Throw DecodeFailure)]
           | Some data \<Rightarrow> invoke requestId data)])\<rparr>\<rparr>"

definition setFailHandler ::
  "(mtpRequestId \<Rightarrow> RPCError \<Rightarrow> 'r code list) \<Rightarrow> 'r RequestBuilder \<Rightarrow> 'r RequestBuilder" where
  "setFailHandler invoke b = b\<lparr>handlers := (handlers b)\<lparr>fail_cb := Some invoke\<rparr>\<rparr>"

definition setToDC :: "ShiftedDcId \<Rightarrow> 'r RequestBuilder \<Rightarrow> 'r RequestBuilder" where
  "setToDC d b = b\<lparr>dcId := d\<rparr>"

definition setCanWait :: "TimeMs \<Rightarrow> 'r RequestBuilder \<Rightarrow> 'r RequestBuilder" where
  "setCanWait ms b = b\<lparr>canWait := ms\<rparr>"

definition setFailSkipPolicy :: "FailSkipPolicy \<Rightarrow> 'r RequestBuilder \<Rightarrow> 'r RequestBuilder" where
  "setFailSkipPolicy policy b = b\<lparr>failSkipPolicy := policy\<rparr>"

definition setAfter :: "mtpRequestId \<Rightarrow> 'r RequestBuilder \<Rightarrow> 'r RequestBuilder" where
  "setAfter requestId b = b\<lparr>afterRequestId := requestId\<rparr>"

subsection \<open>User handlers and their shapes\<close>

text \<open>
  A user's callable, by the four signatures the builder asks about
  (\<open>rpl::details::is_callable_plain_v\<close>, declared outside the header): for each
  signature, \<open>None\<close> when the callable cannot be called that way, and otherwise what the
  call does. A callable may answer to several signatures.
\<close>

record 'r done_callable =
  on_id_response :: "(mtpRequestId \<Rightarrow> 'r \<Rightarrow> cmd list) option"
  on_response :: "('r \<Rightarrow> cmd list) option"
  on_id :: "(mtpRequestId \<Rightarrow> cmd list) option"
  on_nothing :: "cmd list option"

record fail_callable =
  on_id_error :: "(mtpRequestId \<Rightarrow> RPCError \<Rightarrow> cmd list) option"
  on_error :: "(RPCError \<Rightarrow> cmd list) option"
  on_id_only :: "(mtpRequestId \<Rightarrow> cmd list) option"
  on_no_args :: "cmd list option"

text \<open>Entering a user handler with given arguments, then running what it does.\<close>

definition invoke_user :: "'r call \<Rightarrow> cmd list \<Rightarrow> 'r code list" where
  "invoke_user c body = Invoked c # map Run body"

datatype build_error = BadDoneHandler | BadFailHandler

text \<open>
  \<open>SpecificRequestBuilder<Request>::done(handler)\<close>: the \<open>if constexpr\<close> chain of the
  header over \<open>takesFull\<close>, \<open>takesResponse\<close>, \<open>takesRequestId\<close> and \<open>takesNone\<close>;
  its last branch is the \<open>static_assert\<close>, a build that fails. \<open>read\<close> is
  \<open>Request::ResponseType::read\<close>.
\<close>

definition done_builder ::
  "(mtpPrime list \<Rightarrow> 'r option) \<Rightarrow> 'r done_callable \<Rightarrow> 'r RequestBuilder \<Rightarrow>
   build_error + 'r RequestBuilder" where
  "done_builder read handler b =
     (case on_id_response handler of
        Some f \<Rightarrow>
          Inr (setDoneHandler read (\<lambda>requestId result.
            invoke_user (DoneCall (Some requestId) (Some result)) (f requestId result)) b)
      | None \<Rightarrow>
     (case on_response handler of
        Some f \<Rightarrow>
          Inr (setDoneHandler read (\<lambda>requestId result.
            invoke_user (DoneCall None (Some result)) (f result)) b)
      | None \<Rightarrow>
     (case on_id handler of
        Some f \<Rightarrow>
          Inr (setDoneHandler read (\<lambda>requestId result.
            invoke_user (DoneCall (Some requestId) None) (f requestId)) b)
      | None \<Rightarrow>
     (case on_nothing handler of
        Some body \<Rightarrow>
          Inr (setDoneHandler read (\<lambda>requestId result.
            invoke_user (DoneCall None None) body) b)
      | None \<Rightarrow> Inl BadDoneHandler))))"

text \<open>\<open>SpecificRequestBuilder<Request>::fail(handler)\<close>, likewise.\<close>

definition fail_builder ::
  "fail_callable \<Rightarrow> 'r RequestBuilder \<Rightarrow> build_error + 'r RequestBuilder" where
  "fail_builder handler b =
     (case on_id_error handler of
        Some f \<Rightarrow>
          Inr (setFailHandler (\<lambda>requestId error.
            invoke_user (FailCall (Some requestId) (Some error)) (f requestId error)) b)
      | None \<Rightarrow>
     (case on_error handler of
        Some f \<Rightarrow>
          Inr (setFailHandler (\<lambda>requestId error.
            invoke_user (FailCall None (Some error)) (f error)) b)
      | None \<Rightarrow>
     (case on_id_only handler of
        Some f \<Rightarrow>
          Inr (setFailHandler (\<lambda>requestId error.
            invoke_user (FailCall (Some requestId) None) (f requestId)) b)
      | None \<Rightarrow>
     (case on_no_args handler of
        Some body \<Rightarrow>
          Inr (setFailHandler (\<lambda>requestId error.
            invoke_user (FailCall None None) body) b)
      | None \<Rightarrow> Inl BadFailHandler))))"

definition toDC :: "ShiftedDcId \<Rightarrow> 'r RequestBuilder \<Rightarrow> 'r RequestBuilder" where
  "toDC d b = setToDC d b"

definition afterDelay :: "TimeMs \<Rightarrow> 'r RequestBuilder \<Rightarrow> 'r RequestBuilder" where
  "afterDelay ms b = setCanWait ms b"

definition handleFloodErrors :: "'r RequestBuilder \<Rightarrow> 'r RequestBuilder" where
  "handleFloodErrors b = setFailSkipPolicy HandleFlood b"

definition handleAllErrors :: "'r RequestBuilder \<Rightarrow> 'r RequestBuilder" where
  "handleAllErrors b = setFailSkipPolicy HandleAll b"

definition afterRequest :: "mtpRequestId \<Rightarrow> 'r RequestBuilder \<Rightarrow> 'r RequestBuilder" where
  "afterRequest requestId b = setAfter requestId b"

text \<open>
  Modelled from the spec: the body of \<open>RequestBuilder::send\<close> is not in the header.
  \<open>send()\<close> hands the finalized request to the transport, receives back a request id,
  and registers the handler pair against that id before returning the id. What the
  transport is handed is a \<open>submission\<close>; the id it assigns is the parameter
  \<open>requestId\<close>.
\<close>

record submission =
  sub_request :: "mtpPrime list"
  sub_shard :: ShiftedDcId
  sub_waitHint :: TimeMs
  sub_afterId :: mtpRequestId
  sub_policy :: FailSkipPolicy

definition send ::
  "'r RequestBuilder \<Rightarrow> mtpRequestId \<Rightarrow> 'r sender \<Rightarrow>
   sender_error + (mtpRequestId \<times> submission \<times> 'r sender)" where
  "send b requestId s =
     (case register requestId (handlers b) s of
        Inl e \<Rightarrow> Inl e
      | Inr s' \<Rightarrow>
          Inr (requestId,
               \<lparr>sub_request = serialized b, sub_shard = dcId b, sub_waitHint = canWait b,
                sub_afterId = afterRequestId b, sub_policy = failSkipPolicy b\<rparr>,
               s'))"

text \<open>
  Modelled from the spec: the transport-side functors \<open>RPCDoneHandler\<close> and
  \<open>RPCFailHandler\<close> are only declared in the header. For a request it holds, the
  transport invokes \<open>deliverDone(id, bytes)\<close> or \<open>deliverFail(id, error)\<close>, the
  latter under the policy of the submission.
\<close>

definition transport_done :: "mtpRequestId \<Rightarrow> bytes \<Rightarrow> cmd" where
  "transport_done requestId result = DeliverDone requestId result"

definition transport_fail :: "submission \<Rightarrow> mtpRequestId \<Rightarrow> RPCError \<Rightarrow> cmd" where
  "transport_fail sub requestId error = DeliverFail (sub_policy sub) requestId error"

text \<open>Running a sequence of calls made on the owner's context from outside any handler.\<close>

definition run :: "cmd list \<Rightarrow> 'r sender \<Rightarrow> 'r sender \<times> exn option" where
  "run cs s = exec (map (\<lambda>c. Code (Run c)) cs) s"

text \<open>How often an event occurs in a trace; the terminal outcomes recorded for an id.\<close>

definition occurrences :: "'r event \<Rightarrow> 'r event list \<Rightarrow> nat" where
  "occurrences e t = length (filter (\<lambda>x. x = e) t)"

fun outcome_of :: "'r event \<Rightarrow> mtpRequestId option" where
  "outcome_of (DoneFired k) = Some k"
| "outcome_of (FailFired k) = Some k"
| "outcome_of (Dropped k) = Some k"
| "outcome_of (Called c) = None"

definition outcomes :: "mtpRequestId \<Rightarrow> 'r event list \<Rightarrow> nat" where
  "outcomes k t = length (filter (\<lambda>x. outcome_of x = Some k) t)"

fun is_callback :: "'r event \<Rightarrow> bool" where
  "is_callback (Dropped k) = False"
| "is_callback e = True"

definition callbacks :: "'r event list \<Rightarrow> 'r event list" where
  "callbacks t = filter is_callback t"

text \<open>
  A step for an id either finds nothing and changes nothing, or removes the id and
  records one outcome for it.
\<close>

definition resolved :: "mtpRequestId \<Rightarrow> 'r sender \<Rightarrow> 'r sender \<Rightarrow> bool" where
  "resolved k s s' \<longleftrightarrow>
     k \<in> registered s \<and> registered s' = registered s - {k} \<and>
     (\<exists>ev. outcome_of ev = Some k \<and> trace s' = trace s @ [ev])"

text \<open>The request id a dispatcher call is about.\<close>

fun target :: "cmd \<Rightarrow> mtpRequestId option" where
  "target (Throw e) = None"
| "target (DeliverDone k b) = Some k"
| "target (DeliverFail p k e) = Some k"
| "target (Cancel k) = Some k"

subsection \<open>The specification's reading of the handler shapes\<close>

text \<open>
  The specification's words for the adaptation: the four shapes, most to least
  specific, first structural match wins. The result is the call that the user handler
  receives and what that call does; \<open>None\<close> when no shape matches.
\<close>

definition done_first_match ::
  "'r done_callable \<Rightarrow> mtpRequestId \<Rightarrow> 'r \<Rightarrow> ('r call \<times> cmd list) option" where
  "done_first_match handler requestId response =
     (if on_id_response handler \<noteq> None
      then Some (DoneCall (Some requestId) (Some response),
                 the (on_id_response handler) requestId response)
      else if on_response handler \<noteq> None
      then Some (DoneCall None (Some response), the (on_response handler) response)
      else if on_id handler \<noteq> None
      then Some (DoneCall (Some requestId) None, the (on_id handler) requestId)
      else if on_nothing handler \<noteq> None
      then Some (DoneCall None None, the (on_nothing handler))
      else None)"

definition fail_first_match ::
  "fail_callable \<Rightarrow> mtpRequestId \<Rightarrow> RPCError \<Rightarrow> ('r call \<times> cmd list) option" where
  "fail_first_match handler requestId error =
     (if on_id_error handler \<noteq> None
      then Some (FailCall (Some requestId) (Some error),
                 the (on_id_error handler) requestId error)
      else if on_error handler \<noteq> None
      then Some (FailCall None (Some error), the (on_error handler) error)
      else if on_id_only handler \<noteq> None
      then Some (FailCall (Some requestId) None, the (on_id_only handler) requestId)
      else if on_no_args handler \<noteq> None
      then Some (FailCall None None, the (on_no_args handler))
      else None)"

subsection \<open>Sample senders, handlers and errors\<close>

text \<open>
  A sender with one pending request, whose done callback delivers a result for its own
  id again, then an error, and then cancels it.
\<close>

definition reentrant_done :: "mtpRequestId \<Rightarrow> bytes \<Rightarrow> nat code list" where
  "reentrant_done requestId result =
     [Run (DeliverDone requestId result),
      Run (DeliverFail HandleAll requestId
             \<lparr>flood_class = False, handled_elsewhere = False, description = ''again''\<rparr>),
      Run (Cancel requestId)]"

definition reentrant_sender :: "nat sender" where
  "reentrant_sender =
     \<lparr>requests = [(7, \<lparr>done_cb = Some reentrant_done, fail_cb = Some (\<lambda>requestId error. [])\<rparr>)],
      trace = []\<rparr>"

text \<open>A response of one word, and a handler that takes the response only and throws.\<close>

definition read_word :: "mtpPrime list \<Rightarrow> mtpPrime option" where
  "read_word ps = (case ps of [] \<Rightarrow> None | p # rest \<Rightarrow> Some p)"

definition throwing_handler :: "mtpPrime done_callable" where
  "throwing_handler =
     \<lparr>on_id_response = None, on_response = Some (\<lambda>r. [Throw (UserException 1)]),
      on_id = None, on_nothing = None\<rparr>"

text \<open>A callable that answers to all four done signatures, each in its own way.\<close>

definition overloaded_handler :: "mtpPrime done_callable" where
  "overloaded_handler =
     \<lparr>on_id_response = Some (\<lambda>requestId r. [Cancel 1]),
      on_response = Some (\<lambda>r. [Cancel 2]),
      on_id = Some (\<lambda>requestId. [Cancel 3]),
      on_nothing = Some [Cancel 4]\<rparr>"

definition error_only_handler :: fail_callable where
  "error_only_handler =
     \<lparr>on_id_error = None, on_error = Some (\<lambda>e. [Cancel 2]),
      on_id_only = Some (\<lambda>requestId. [Cancel 3]), on_no_args = None\<rparr>"

text \<open>A handler that takes nothing.\<close>

definition nullary_handler :: "mtpPrime done_callable" where
  "nullary_handler =
     \<lparr>on_id_response = None, on_response = None, on_id = None, on_nothing = Some [Cancel 4]\<rparr>"

text \<open>A handler that takes the response only and does nothing.\<close>

definition response_handler :: "mtpPrime done_callable" where
  "response_handler =
     \<lparr>on_id_response = None, on_response = Some (\<lambda>r. []), on_id = None, on_nothing = None\<rparr>"

text \<open>Callables that answer to none of the four signatures.\<close>

definition shapeless_done :: "mtpPrime done_callable" where
  "shapeless_done =
     \<lparr>on_id_response = None, on_response = None, on_id = None, on_nothing = None\<rparr>"

definition shapeless_fail :: fail_callable where
  "shapeless_fail =
     \<lparr>on_id_error = None, on_error = None, on_id_only = None, on_no_args = None\<rparr>"

text \<open>A flood error, and a sender with one pending request that has a fail handler.\<close>

definition flood_error :: RPCError where
  "flood_error = \<lparr>flood_class = True, handled_elsewhere = False, description = ''FLOOD_WAIT''\<rparr>"

definition noting_fail :: "mtpRequestId \<Rightarrow> RPCError \<Rightarrow> mtpPrime code list" where
  "noting_fail requestId error = invoke_user (FailCall None (Some error)) []"

definition pending_sender :: "mtpPrime sender" where
  "pending_sender =
     \<lparr>requests = [(1, \<lparr>done_cb = None, fail_cb = Some noting_fail\<rparr>)], trace = []\<rparr>"

text \<open>A sender with two pending requests.\<close>

definition two_pending :: "mtpPrime sender" where
  "two_pending =
     \<lparr>requests = [(1, \<lparr>done_cb = None, fail_cb = Some noting_fail\<rparr>),
                  (2, \<lparr>done_cb = Some (\<lambda>requestId result. [Invoked (DoneCall None None)]),
                       fail_cb = None\<rparr>)],
      trace = []\<rparr>"

section \<open>Properties of the machine\<close>

lemma unwind_append:
  "unwind (gs @ fs) = (case unwind gs of None \<Rightarrow> unwind fs | Some r \<Rightarrow> Some (r @ fs))"
  by (induction gs rule: unwind.induct) simp_all

text \<open>
  Running a stack in two parts: the first part runs on its own; what it leaves, and an
  exception that left it, meet the second part.
\<close>

lemma exec_append:
  "exec (gs @ fs) s =
     (case exec gs s of
        (s', None) \<Rightarrow> exec fs s'
      | (s', Some e) \<Rightarrow> (case unwind fs of None \<Rightarrow> (s', Some e) | Some fs' \<Rightarrow> exec fs' s'))"
proof (induction gs s rule: exec.induct)
  case (1 s)
  then show ?case by simp
next
  case (2 gs s)
  then show ?case by simp
next
  case (3 c gs s)
  then show ?case by simp
next
  case (4 cs gs s)
  then show ?case by simp
next
  case (5 e gs s)
  then show ?case
    by (cases "unwind gs") (simp_all add: unwind_append)
next
  case (6 k b gs s)
  then show ?case
    by (cases "deliverDone k b s") simp
next
  case (7 p k e gs s)
  then show ?case
    by (cases "deliverFail p k e s") simp
next
  case (8 k gs s)
  then show ?case by simp
qed

lemma exec_try:
  "exec (Code (TryCatchAll cs) # fs) s = exec fs (fst (exec (map Code cs) s))"
proof -
  have "exec (Code (TryCatchAll cs) # fs) s = exec (map Code cs @ EndTry # fs) s"
    by simp
  also have "\<dots> = exec fs (fst (exec (map Code cs) s))"
    by (cases "exec (map Code cs) s") (auto simp: exec_append split: option.splits)
  finally show ?thesis .
qed

lemma exec_try_alone: "snd (exec [Code (TryCatchAll cs)] s) = None"
  by (simp only: exec_try exec.simps snd_conv)

subsection \<open>The dispatcher's steps\<close>

lemma take_request_None_iff: "take_request k reqs = None \<longleftrightarrow> k \<notin> fst ` set reqs"
proof -
  have "take_request k reqs = None \<longleftrightarrow> map_of reqs k = None"
    by (simp add: take_request_def split: option.splits)
  then show ?thesis by (simp add: map_of_eq_None_iff)
qed

lemma take_request_SomeD:
  assumes "take_request k reqs = Some (h, rest)"
  shows "map_of reqs k = Some h" and "rest = filter (\<lambda>p. fst p \<noteq> k) reqs"
    and "k \<in> fst ` set reqs" and "fst ` set rest = fst ` set reqs - {k}"
proof -
  from assms show m: "map_of reqs k = Some h" and r: "rest = filter (\<lambda>p. fst p \<noteq> k) reqs"
    by (auto simp: take_request_def split: option.splits)
  from m have "(k, h) \<in> set reqs" by (rule map_of_SomeD)
  then show "k \<in> fst ` set reqs" by force
  from r show "fst ` set rest = fst ` set reqs - {k}" by force
qed

lemma deliverDone_absent: "k \<notin> registered s \<Longrightarrow> deliverDone k b s = ([], s)"
  by (simp add: deliverDone_def registered_def take_request_None_iff[symmetric])

lemma deliverFail_absent: "k \<notin> registered s \<Longrightarrow> deliverFail p k e s = ([], s)"
  by (simp add: deliverFail_def registered_def take_request_None_iff[symmetric])

lemma cancel_absent: "k \<notin> registered s \<Longrightarrow> cancel k s = s"
  by (simp add: cancel_def registered_def take_request_None_iff[symmetric])

lemma deliverDone_present:
  assumes "take_request k (requests s) = Some (h, rest)"
  shows "deliverDone k b s =
           (call_fn (done_cb h) k b, s\<lparr>requests := rest, trace := trace s @ [DoneFired k]\<rparr>)"
  using assms by (simp add: deliverDone_def)

lemma deliverFail_present:
  assumes "take_request k (requests s) = Some (h, rest)"
  shows "deliverFail p k e s =
           (if suppressed p e
            then ([], s\<lparr>requests := rest, trace := trace s @ [Dropped k]\<rparr>)
            else (call_fn (fail_cb h) k e,
                  s\<lparr>requests := rest, trace := trace s @ [FailFired k]\<rparr>))"
  using assms by (simp add: deliverFail_def)

lemma cancel_present:
  assumes "take_request k (requests s) = Some (h, rest)"
  shows "cancel k s = s\<lparr>requests := rest, trace := trace s @ [Dropped k]\<rparr>"
  using assms by (simp add: cancel_def)

lemma registered_take:
  assumes "k \<in> registered s"
  obtains h rest where "take_request k (requests s) = Some (h, rest)"
proof (cases "take_request k (requests s)")
  case None
  with assms show ?thesis by (simp add: take_request_None_iff registered_def)
next
  case (Some hr)
  with that show ?thesis by (cases hr) simp
qed

lemma deliverDone_resolved:
  assumes "k \<in> registered s" and "deliverDone k b s = (cs, s')"
  shows "resolved k s s'"
proof -
  from assms(1) obtain h rest where t: "take_request k (requests s) = Some (h, rest)"
    by (rule registered_take)
  from assms(2) have s': "s' = s\<lparr>requests := rest, trace := trace s @ [DoneFired k]\<rparr>"
    by (simp add: deliverDone_present[OF t])
  have "outcome_of (DoneFired k :: 'a event) = Some k" by simp
  with s' assms(1) take_request_SomeD(4)[OF t] show ?thesis
    unfolding resolved_def registered_def by auto
qed

lemma deliverFail_resolved:
  assumes "k \<in> registered s" and "deliverFail p k e s = (cs, s')"
  shows "resolved k s s'"
proof -
  from assms(1) obtain h rest where t: "take_request k (requests s) = Some (h, rest)"
    by (rule registered_take)
  from assms(2) have s': "s' = s\<lparr>requests := rest,
      trace := trace s @ [if suppressed p e then Dropped k else FailFired k]\<rparr>"
    by (simp add: deliverFail_present[OF t] split: if_splits)
  have "outcome_of (if suppressed p e then Dropped k else FailFired k :: 'a event) = Some k"
    by simp
  with s' assms(1) take_request_SomeD(4)[OF t] show ?thesis
    unfolding resolved_def registered_def by auto
qed

lemma cancel_resolved:
  assumes "k \<in> registered s"
  shows "resolved k s (cancel k s)"
proof -
  from assms(1) obtain h rest where t: "take_request k (requests s) = Some (h, rest)"
    by (rule registered_take)
  have "outcome_of (Dropped k :: 'a event) = Some k" by simp
  with assms(1) take_request_SomeD(4)[OF t] show ?thesis
    unfolding resolved_def registered_def cancel_present[OF t] by auto
qed

subsection \<open>The registry only shrinks, the trace only grows\<close>

lemma exec_registered: "registered (fst (exec fs s)) \<subseteq> registered s"
proof (induction fs s rule: exec.induct)
  case (1 s)
  then show ?case by simp
next
  case (2 fs s)
  then show ?case by simp
next
  case (3 c fs s)
  then show ?case by (simp add: registered_def)
next
  case (4 cs fs s)
  then show ?case by simp
next
  case (5 e fs s)
  then show ?case by (cases "unwind fs") simp_all
next
  case (6 k b fs s)
  obtain cs s' where d: "deliverDone k b s = (cs, s')" by (cases "deliverDone k b s")
  have "registered s' \<subseteq> registered s"
  proof (cases "k \<in> registered s")
    case True
    from deliverDone_resolved[OF True d] show ?thesis by (auto simp: resolved_def)
  next
    case False
    with d show ?thesis by (simp add: deliverDone_absent)
  qed
  with 6[OF d[symmetric]] d show ?case by auto
next
  case (7 p k e fs s)
  obtain cs s' where d: "deliverFail p k e s = (cs, s')" by (cases "deliverFail p k e s")
  have "registered s' \<subseteq> registered s"
  proof (cases "k \<in> registered s")
    case True
    from deliverFail_resolved[OF True d] show ?thesis by (auto simp: resolved_def)
  next
    case False
    with d show ?thesis by (simp add: deliverFail_absent)
  qed
  with 7[OF d[symmetric]] d show ?case by auto
next
  case (8 k fs s)
  have "registered (cancel k s) \<subseteq> registered s"
  proof (cases "k \<in> registered s")
    case True
    from cancel_resolved[OF True] show ?thesis by (auto simp: resolved_def)
  next
    case False
    then show ?thesis by (simp add: cancel_absent)
  qed
  with 8 show ?case by auto
qed

lemma outcomes_simps [simp]:
  "outcomes k [] = 0"
  "outcomes k (t @ u) = outcomes k t + outcomes k u"
  "outcomes k (ev # t) = (if outcome_of ev = Some k then 1 else 0) + outcomes k t"
  by (simp_all add: outcomes_def)

lemma step_outcomes:
  assumes step: "(j \<notin> registered s \<and> s' = s) \<or> resolved j s s'"
    and rest: "\<exists>t. tr = trace s' @ t \<and> outcomes k t \<le> (if k \<in> registered s' then 1 else 0)"
  shows "\<exists>t. tr = trace s @ t \<and> outcomes k t \<le> (if k \<in> registered s then 1 else 0)"
  using step
proof
  assume "j \<notin> registered s \<and> s' = s"
  with rest show ?thesis by simp
next
  assume r: "resolved j s s'"
  then obtain ev where ev: "outcome_of ev = Some j" "trace s' = trace s @ [ev]"
    and reg: "registered s' = registered s - {j}" and j: "j \<in> registered s"
    by (auto simp: resolved_def)
  from rest obtain t where t: "tr = trace s' @ t"
    "outcomes k t \<le> (if k \<in> registered s' then 1 else 0)" by blast
  from t(1) ev(2) have "tr = trace s @ (ev # t)" by simp
  moreover have "outcomes k (ev # t) \<le> (if k \<in> registered s then 1 else 0)"
  proof (cases "j = k")
    case True
    with reg t(2) have "outcomes k t = 0" by simp
    with True ev(1) j show ?thesis by simp
  next
    case False
    with ev(1) reg t(2) show ?thesis by simp
  qed
  ultimately show ?thesis by blast
qed

text \<open>
  Whatever runs, the trace is extended, and the extension holds at most one outcome for
  an id that was registered and none for an id that was not.
\<close>

lemma exec_outcomes:
  "\<exists>t. trace (fst (exec fs s)) = trace s @ t \<and>
       outcomes k t \<le> (if k \<in> registered s then 1 else 0)"
proof (induction fs s rule: exec.induct)
  case (1 s)
  then show ?case by simp
next
  case (2 fs s)
  then show ?case by simp
next
  case (3 c fs s)
  then obtain t where "trace (fst (exec fs (s\<lparr>trace := trace s @ [Called c]\<rparr>))) =
      trace s @ Called c # t" "outcomes k t \<le> (if k \<in> registered s then 1 else 0)"
    by (auto simp: registered_def)
  then have "trace (fst (exec (Code (Invoked c) # fs) s)) = trace s @ (Called c # t) \<and>
      outcomes k (Called c # t) \<le> (if k \<in> registered s then 1 else 0)"
    by simp
  then show ?case by blast
next
  case (4 cs fs s)
  then show ?case by simp
next
  case (5 e fs s)
  then show ?case by (cases "unwind fs") simp_all
next
  case (6 j b fs s)
  obtain cs s' where d: "deliverDone j b s = (cs, s')" by (cases "deliverDone j b s")
  have step: "(j \<notin> registered s \<and> s' = s) \<or> resolved j s s'"
    using d deliverDone_resolved[of j s b cs s'] deliverDone_absent[of j s b] by auto
  from 6[OF d[symmetric]] d show ?case
    by (simp add: step_outcomes[OF step])
next
  case (7 p j e fs s)
  obtain cs s' where d: "deliverFail p j e s = (cs, s')" by (cases "deliverFail p j e s")
  have step: "(j \<notin> registered s \<and> s' = s) \<or> resolved j s s'"
    using d deliverFail_resolved[of j s p e cs s'] deliverFail_absent[of j s p e] by auto
  from 7[OF d[symmetric]] d show ?case
    by (simp add: step_outcomes[OF step])
next
  case (8 j fs s)
  have step: "(j \<notin> registered s \<and> cancel j s = s) \<or> resolved j s (cancel j s)"
    using cancel_resolved[of j s] cancel_absent[of j s] by auto
  from 8 show ?case
    by (simp add: step_outcomes[OF step])
qed

lemma exec_outcomes_le:
  "outcomes k (trace (fst (exec fs s))) \<le>
     outcomes k (trace s) + (if k \<in> registered s then 1 else 0)"
proof -
  obtain t where "trace (fst (exec fs s)) = trace s @ t"
    "outcomes k t \<le> (if k \<in> registered s then 1 else 0)"
    using exec_outcomes[of fs s k] by blast
  then show ?thesis by simp
qed

lemma exec_outcomes_absent:
  assumes "k \<notin> registered s"
  shows "\<exists>t. trace (fst (exec fs s)) = trace s @ t \<and> (\<forall>ev \<in> set t. outcome_of ev \<noteq> Some k)"
proof -
  obtain t where t: "trace (fst (exec fs s)) = trace s @ t" "outcomes k t = 0"
    using exec_outcomes[of fs s k] assms by auto
  from t(2) have "\<forall>ev \<in> set t. outcome_of ev \<noteq> Some k"
    by (simp add: outcomes_def filter_empty_conv)
  with t(1) show ?thesis by blast
qed

lemma occurrences_simps [simp]:
  "occurrences e [] = 0"
  "occurrences e (t @ u) = occurrences e t + occurrences e u"
  "occurrences e (x # t) = (if x = e then 1 else 0) + occurrences e t"
  by (simp_all add: occurrences_def)

lemma occurrences_none: "\<forall>x \<in> set t. x \<noteq> e \<Longrightarrow> occurrences e t = 0"
  by (induction t) simp_all

lemma resolved_absent: "resolved k s s' \<Longrightarrow> k \<notin> registered s'"
  by (simp add: resolved_def)

lemma exec_target:
  assumes "target c = Some k"
  shows "\<exists>cs s'. exec (Code (Run c) # fs) s = exec (map Code cs @ fs) s' \<and>
           ((k \<notin> registered s \<and> cs = [] \<and> s' = s) \<or> resolved k s s')"
proof (cases c)
  case (Throw e)
  with assms show ?thesis by simp
next
  case (DeliverDone j b)
  with assms have j: "j = k" by simp
  obtain cs s' where d: "deliverDone k b s = (cs, s')" by (cases "deliverDone k b s")
  then have "exec (Code (Run c) # fs) s = exec (map Code cs @ fs) s'"
    by (simp add: DeliverDone j)
  moreover have "(k \<notin> registered s \<and> cs = [] \<and> s' = s) \<or> resolved k s s'"
    using d deliverDone_resolved[of k s b cs s'] deliverDone_absent[of k s b] by auto
  ultimately show ?thesis by blast
next
  case (DeliverFail p j e)
  with assms have j: "j = k" by simp
  obtain cs s' where d: "deliverFail p k e s = (cs, s')" by (cases "deliverFail p k e s")
  then have "exec (Code (Run c) # fs) s = exec (map Code cs @ fs) s'"
    by (simp add: DeliverFail j)
  moreover have "(k \<notin> registered s \<and> cs = [] \<and> s' = s) \<or> resolved k s s'"
    using d deliverFail_resolved[of k s p e cs s'] deliverFail_absent[of k s p e] by auto
  ultimately show ?thesis by blast
next
  case (Cancel j)
  with assms have j: "j = k" by simp
  have "exec (Code (Run c) # fs) s = exec (map Code [] @ fs) (cancel k s)"
    by (simp add: Cancel j)
  moreover have "(k \<notin> registered s \<and> [] = [] \<and> cancel k s = s) \<or> resolved k s (cancel k s)"
    using cancel_resolved[of k s] cancel_absent[of k s] by auto
  ultimately show ?thesis by blast
qed

lemma exec_target_absent:
  assumes "target c = Some k" and "k \<notin> registered s"
  shows "exec (Code (Run c) # fs) s = exec fs s"
  using exec_target[OF assms(1), of fs s] assms(2) by (auto simp: resolved_def)

lemma exec_target_gone:
  assumes "target c = Some k"
  shows "k \<notin> registered (fst (exec (Code (Run c) # fs) s))"
proof -
  from exec_target[OF assms, of fs s] obtain cs s'
    where e: "exec (Code (Run c) # fs) s = exec (map Code cs @ fs) s'"
      and "(k \<notin> registered s \<and> cs = [] \<and> s' = s) \<or> resolved k s s'" by blast
  then have "k \<notin> registered s'" by (auto dest: resolved_absent)
  with exec_registered[of "map Code cs @ fs" s'] e show ?thesis by auto
qed

lemma exec_deliverDone_present:
  assumes "take_request k (requests s) = Some (h, rest)"
  shows "exec (Code (Run (DeliverDone k b)) # fs) s =
           exec (map Code (call_fn (done_cb h) k b) @ fs)
             (s\<lparr>requests := rest, trace := trace s @ [DoneFired k]\<rparr>)"
  by (simp add: deliverDone_present[OF assms])

lemma exec_deliverFail_present:
  assumes "take_request k (requests s) = Some (h, rest)"
  shows "exec (Code (Run (DeliverFail p k e)) # fs) s =
           (if suppressed p e
            then exec fs (s\<lparr>requests := rest, trace := trace s @ [Dropped k]\<rparr>)
            else exec (map Code (call_fn (fail_cb h) k e) @ fs)
                   (s\<lparr>requests := rest, trace := trace s @ [FailFired k]\<rparr>))"
  by (simp add: deliverFail_present[OF assms])

text \<open>
  Once an id is gone, no event about it is added: an event that was recorded just before
  keeps its number of occurrences.
\<close>

lemma occurrences_after_removal:
  assumes "k \<notin> registered s'" and "outcome_of ev = Some k"
  shows "occurrences ev (trace (fst (exec fs s'))) = occurrences ev (trace s')"
proof -
  from exec_outcomes_absent[OF assms(1), of fs] obtain t
    where t: "trace (fst (exec fs s')) = trace s' @ t" "\<forall>x \<in> set t. outcome_of x \<noteq> Some k"
    by blast
  from t(2) assms(2) have "\<forall>x \<in> set t. x \<noteq> ev" by auto
  then have "occurrences ev t = 0" by (rule occurrences_none)
  with t(1) show ?thesis by simp
qed

lemma done_fired_once:
  assumes "k \<in> registered s"
  shows "occurrences (DoneFired k) (trace (fst (exec (Code (Run (DeliverDone k b)) # fs) s))) =
           occurrences (DoneFired k) (trace s) + 1"
proof -
  from assms obtain h rest where t: "take_request k (requests s) = Some (h, rest)"
    by (rule registered_take)
  let ?s' = "s\<lparr>requests := rest, trace := trace s @ [DoneFired k]\<rparr>"
  have "k \<notin> registered ?s'"
    using take_request_SomeD(4)[OF t] by (simp add: registered_def)
  then have "occurrences (DoneFired k)
      (trace (fst (exec (map Code (call_fn (done_cb h) k b) @ fs) ?s'))) =
      occurrences (DoneFired k) (trace ?s')"
    by (rule occurrences_after_removal) simp
  moreover have "exec (Code (Run (DeliverDone k b)) # fs) s =
      exec (map Code (call_fn (done_cb h) k b) @ fs) ?s'"
    by (rule exec_deliverDone_present[OF t])
  ultimately show ?thesis by (simp del: exec.simps)
qed

section \<open>Verified properties\<close>

subsection \<open>Exactly-once resolution\<close>

text \<open>
  C1. For every request id \<open>X\<close>: whatever runs, at most one terminal outcome (done
  callback fired, fail callback fired, entry dropped without callback) is added to the
  trace for \<open>X\<close>, and none when \<open>X\<close> is not registered; after a \<open>deliverDone\<close>,
  \<open>deliverFail\<close> or \<open>cancel\<close> for \<open>X\<close> the registry no longer contains \<open>X\<close>, whatever
  runs afterwards; a delivery or cancellation for an \<open>X\<close> that is not registered, and so
  every one that follows a delivery or cancellation for \<open>X\<close>, is a no-op; \<open>deliverDone\<close> removes the entry before the done callback starts, so the done
  callback of a registered \<open>X\<close> fires exactly once even when the callback itself and the
  code after it deliver for \<open>X\<close> again.
\<close>

theorem terminal_outcome_once:
  fixes s :: "'r sender"
  shows "outcomes X (trace (fst (exec fs s))) \<le>
           outcomes X (trace s) + (if X \<in> registered s then 1 else 0)
       \<and> (target c = Some X \<longrightarrow> X \<notin> registered (fst (exec (Code (Run c) # fs) s)))
       \<and> (target c = Some X \<and> X \<notin> registered s \<longrightarrow> exec (Code (Run c) # fs) s = exec fs s)
       \<and> (target c = Some X \<and> target c' = Some X \<longrightarrow>
             exec (Code (Run c') # gs) (fst (exec (Code (Run c) # fs) s)) =
               exec gs (fst (exec (Code (Run c) # fs) s)))
       \<and> (\<forall>h rest. take_request X (requests s) = Some (h, rest) \<longrightarrow>
             X \<notin> fst ` set rest \<and>
             exec (Code (Run (DeliverDone X b)) # fs) s =
               exec (map Code (call_fn (done_cb h) X b) @ fs)
                 (s\<lparr>requests := rest, trace := trace s @ [DoneFired X]\<rparr>))
       \<and> (X \<in> registered s \<longrightarrow>
             occurrences (DoneFired X)
               (trace (fst (exec (Code (Run (DeliverDone X b)) # fs) s))) =
             occurrences (DoneFired X) (trace s) + 1)"
proof (intro conjI impI allI)
  show "outcomes X (trace (fst (exec fs s))) \<le>
          outcomes X (trace s) + (if X \<in> registered s then 1 else 0)"
    by (rule exec_outcomes_le)
next
  assume "target c = Some X"
  then show "X \<notin> registered (fst (exec (Code (Run c) # fs) s))"
    by (rule exec_target_gone)
next
  assume "target c = Some X \<and> X \<notin> registered s"
  then show "exec (Code (Run c) # fs) s = exec fs s"
    by (simp add: exec_target_absent)
next
  assume a: "target c = Some X \<and> target c' = Some X"
  then have "X \<notin> registered (fst (exec (Code (Run c) # fs) s))"
    by (simp add: exec_target_gone)
  with a show "exec (Code (Run c') # gs) (fst (exec (Code (Run c) # fs) s)) =
      exec gs (fst (exec (Code (Run c) # fs) s))"
    by (simp add: exec_target_absent del: exec.simps)
next
  fix h rest
  assume t: "take_request X (requests s) = Some (h, rest)"
  from take_request_SomeD(4)[OF t] show "X \<notin> fst ` set rest" by simp
  from t show "exec (Code (Run (DeliverDone X b)) # fs) s =
      exec (map Code (call_fn (done_cb h) X b) @ fs)
        (s\<lparr>requests := rest, trace := trace s @ [DoneFired X]\<rparr>)"
    by (rule exec_deliverDone_present)
next
  assume "X \<in> registered s"
  then show "occurrences (DoneFired X)
      (trace (fst (exec (Code (Run (DeliverDone X b)) # fs) s))) =
      occurrences (DoneFired X) (trace s) + 1"
    by (rule done_fired_once)
qed

theorem terminal_outcome_once_witness:
  "7 \<in> registered reentrant_sender
   \<and> take_request 7 (requests reentrant_sender) =
       Some (\<lparr>done_cb = Some reentrant_done, fail_cb = Some (\<lambda>requestId error. [])\<rparr>, [])
   \<and> target (DeliverDone 7 []) = Some 7
   \<and> outcomes 7 (trace (fst (exec [Code (Run (DeliverDone 7 []))] reentrant_sender))) \<le> 1
   \<and> 7 \<notin> registered (fst (exec [Code (Run (DeliverDone 7 [])), Code (Run (DeliverDone 7 []))]
                                reentrant_sender))
   \<and> occurrences (DoneFired 7)
        (trace (fst (exec [Code (Run (DeliverDone 7 [])), Code (Run (DeliverDone 7 []))]
                       reentrant_sender))) = 1
   \<and> 8 \<notin> registered reentrant_sender
   \<and> exec [Code (Run (Cancel 8)), Code (Run (Cancel 8))] reentrant_sender =
       exec [Code (Run (Cancel 8))] reentrant_sender"
proof -
  have reg: "registered reentrant_sender = {7}"
    by (simp add: registered_def reentrant_sender_def)
  have tr: "trace reentrant_sender = []"
    by (simp add: reentrant_sender_def)
  have tk: "take_request 7 (requests reentrant_sender) =
      Some (\<lparr>done_cb = Some reentrant_done, fail_cb = Some (\<lambda>requestId error. [])\<rparr>, [])"
    by (simp add: take_request_def reentrant_sender_def)
  note a = terminal_outcome_once[where X = 7 and s = reentrant_sender
      and fs = "[Code (Run (DeliverDone 7 []))]" and c = "DeliverDone 7 []" and b = "[]"]
  note b = terminal_outcome_once[where X = 8 and s = reentrant_sender
      and fs = "[Code (Run (Cancel 8))]" and c = "Cancel 8" and b = "[]"]
  have a1: "outcomes 7 (trace (fst (exec [Code (Run (DeliverDone 7 []))] reentrant_sender))) \<le> 1"
    using a[THEN conjunct1] by (simp add: reg tr del: exec.simps)
  have a2: "7 \<notin> registered (fst (exec [Code (Run (DeliverDone 7 [])),
      Code (Run (DeliverDone 7 []))] reentrant_sender))"
    using a[THEN conjunct2, THEN conjunct1] by (simp del: exec.simps)
  have a5: "occurrences (DoneFired 7) (trace (fst (exec [Code (Run (DeliverDone 7 [])),
      Code (Run (DeliverDone 7 []))] reentrant_sender))) = 1"
    using a[THEN conjunct2, THEN conjunct2, THEN conjunct2, THEN conjunct2, THEN conjunct2]
    by (simp add: reg tr del: exec.simps)
  have b3: "exec [Code (Run (Cancel 8)), Code (Run (Cancel 8))] reentrant_sender =
      exec [Code (Run (Cancel 8))] reentrant_sender"
    using b[THEN conjunct2, THEN conjunct2, THEN conjunct1]
    by (simp add: reg del: exec.simps)
  from a1 a2 a5 b3 tk show ?thesis by (simp add: reg del: exec.simps)
qed

subsection \<open>The canonical done callback\<close>

text \<open>The code of the callback that \<open>setDoneHandler\<close> stores, as the dispatcher calls it.\<close>

lemma setDoneHandler_callback:
  "call_fn (done_cb (handlers (setDoneHandler read invoke b))) requestId result =
     [TryCatchAll
        (case read (primes result) of
           None \<Rightarrow> [Run (Throw DecodeFailure)]
         | Some data \<Rightarrow> invoke requestId data)]"
  by (simp add: setDoneHandler_def call_fn_def)

lemma setFailHandler_callback:
  "call_fn (fail_cb (handlers (setFailHandler invoke b))) requestId error = invoke requestId error"
  by (simp add: setFailHandler_def call_fn_def)

lemma done_builder_is_setDoneHandler:
  assumes "done_builder read handler b = Inr b'"
  shows "\<exists>invoke. b' = setDoneHandler read invoke b"
  using assms by (auto simp: done_builder_def split: option.splits)

text \<open>
  C2. For every callback stored by \<open>setDoneHandler\<close>, and so for every done handler
  that \<open>done\<close> accepts: when the result bytes do not decode, running the callback
  changes nothing (no user handler is entered, the trace stays as it is) and raises
  nothing, on its own and in front of any pending code.
\<close>

theorem decode_failure_absorbed:
  assumes "read (primes result) = None"
  shows "exec (map Code (call_fn (done_cb (handlers (setDoneHandler read invoke b)))
                  requestId result)) s = (s, None)
       \<and> exec (map Code (call_fn (done_cb (handlers (setDoneHandler read invoke b)))
                  requestId result) @ fs) s = exec fs s
       \<and> (\<forall>b'. done_builder read handler b = Inr b' \<longrightarrow>
             exec (map Code (call_fn (done_cb (handlers b')) requestId result)) s = (s, None) \<and>
             exec (map Code (call_fn (done_cb (handlers b')) requestId result) @ fs) s =
               exec fs s)"
proof -
  have cb: "call_fn (done_cb (handlers (setDoneHandler read f b))) requestId result =
      [TryCatchAll [Run (Throw DecodeFailure)]]" for f
    using assms by (simp add: setDoneHandler_callback)
  have one: "exec (map Code (call_fn (done_cb (handlers (setDoneHandler read f b)))
      requestId result)) s = (s, None)" for f
    by (simp add: cb)
  have two: "exec (map Code (call_fn (done_cb (handlers (setDoneHandler read f b)))
      requestId result) @ fs) s = exec fs s" for f
    by (simp add: cb)
  show ?thesis
  proof (intro conjI allI impI)
    show "exec (map Code (call_fn (done_cb (handlers (setDoneHandler read invoke b)))
        requestId result)) s = (s, None)" by (rule one)
    show "exec (map Code (call_fn (done_cb (handlers (setDoneHandler read invoke b)))
        requestId result) @ fs) s = exec fs s" by (rule two)
  next
    fix b'
    assume "done_builder read handler b = Inr b'"
    then obtain f where b': "b' = setDoneHandler read f b"
      using done_builder_is_setDoneHandler by blast
    show "exec (map Code (call_fn (done_cb (handlers b')) requestId result)) s = (s, None)"
      unfolding b' by (rule one)
    show "exec (map Code (call_fn (done_cb (handlers b')) requestId result) @ fs) s =
        exec fs s"
      unfolding b' by (rule two)
  qed
qed

theorem decode_failure_absorbed_witness:
  "read_word (primes [1, 2, 3]) = None
   \<and> done_builder read_word throwing_handler (new_RequestBuilder []) =
       Inr (setDoneHandler read_word
              (\<lambda>requestId result. invoke_user (DoneCall None (Some result))
                 [Throw (UserException 1)])
              (new_RequestBuilder []))
   \<and> exec (map Code (call_fn (done_cb (handlers (setDoneHandler read_word
              (\<lambda>requestId result. invoke_user (DoneCall None (Some result))
                 [Throw (UserException 1)])
              (new_RequestBuilder [])))) 5 [1, 2, 3]))
        \<lparr>requests = [], trace = []\<rparr> = (\<lparr>requests = [], trace = []\<rparr>, None)"
proof -
  have r: "read_word (primes [1, 2, 3]) = None"
    by (simp add: read_word_def)
  have d: "done_builder read_word throwing_handler (new_RequestBuilder []) =
      Inr (setDoneHandler read_word
             (\<lambda>requestId result. invoke_user (DoneCall None (Some result))
                [Throw (UserException 1)])
             (new_RequestBuilder []))"
    by (simp add: done_builder_def throwing_handler_def)
  note t = decode_failure_absorbed[where read = read_word and result = "[1, 2, 3]"
      and b = "new_RequestBuilder []" and handler = throwing_handler and requestId = 5
      and fs = "[]" and s = "\<lparr>requests = [], trace = []\<rparr>", OF r]
  from t[THEN conjunct2, THEN conjunct2] r d
  show ?thesis by (simp del: exec.simps)
qed

text \<open>
  C9. The \<open>try\<close> block of the canonical done callback holds the call of the user's
  handler: whatever \<open>invoke\<close> does after a successful decode, an exception it raises
  included, the callback raises nothing and the code pending after it runs next; this
  holds for every handler that \<open>done\<close> accepts.
\<close>

theorem done_handler_exception_absorbed:
  "snd (exec (map Code (call_fn (done_cb (handlers (setDoneHandler read invoke b)))
               requestId result)) s) = None
   \<and> (\<forall>data. read (primes result) = Some data \<longrightarrow>
         exec (map Code (call_fn (done_cb (handlers (setDoneHandler read invoke b)))
                 requestId result) @ fs) s =
           exec fs (fst (exec (map Code (invoke requestId data)) s)))
   \<and> (\<forall>data e. read (primes result) = Some data \<and> invoke requestId data = [Run (Throw e)] \<longrightarrow>
         exec (map Code (call_fn (done_cb (handlers (setDoneHandler read invoke b)))
                 requestId result) @ fs) s = exec fs s)
   \<and> (\<forall>b'. done_builder read handler b = Inr b' \<longrightarrow>
         snd (exec (map Code (call_fn (done_cb (handlers b')) requestId result)) s) = None)"
proof -
  have none: "snd (exec (map Code (call_fn (done_cb (handlers (setDoneHandler read f b)))
      requestId result)) s) = None" for f
    by (simp only: setDoneHandler_callback list.map exec_try_alone)
  have some: "exec (map Code (call_fn (done_cb (handlers (setDoneHandler read invoke b)))
      requestId result) @ fs) s = exec fs (fst (exec (map Code (invoke requestId data)) s))"
    if "read (primes result) = Some data" for data
    using that by (simp add: setDoneHandler_callback exec_try del: exec.simps)
  show ?thesis
  proof (intro conjI allI impI)
    show "snd (exec (map Code (call_fn (done_cb (handlers (setDoneHandler read invoke b)))
        requestId result)) s) = None" by (rule none)
  next
    fix data
    assume "read (primes result) = Some data"
    then show "exec (map Code (call_fn (done_cb (handlers (setDoneHandler read invoke b)))
        requestId result) @ fs) s = exec fs (fst (exec (map Code (invoke requestId data)) s))"
      by (rule some)
  next
    fix data e
    assume a: "read (primes result) = Some data \<and> invoke requestId data = [Run (Throw e)]"
    then have "exec (map Code (call_fn (done_cb (handlers (setDoneHandler read invoke b)))
        requestId result) @ fs) s = exec fs (fst (exec (map Code (invoke requestId data)) s))"
      by (simp add: some)
    also from a have "fst (exec (map Code (invoke requestId data)) s) = s" by simp
    finally show "exec (map Code (call_fn (done_cb (handlers (setDoneHandler read invoke b)))
        requestId result) @ fs) s = exec fs s" .
  next
    fix b'
    assume "done_builder read handler b = Inr b'"
    then obtain f where b': "b' = setDoneHandler read f b"
      using done_builder_is_setDoneHandler by blast
    show "snd (exec (map Code (call_fn (done_cb (handlers b')) requestId result)) s) = None"
      unfolding b' by (rule none)
  qed
qed

theorem done_handler_exception_absorbed_witness:
  "read_word (primes [1, 0, 0, 0]) = Some 1
   \<and> exec (map Code (invoke_user (DoneCall None (Some (1::mtpPrime)))
              [Throw (UserException 1)]))
        \<lparr>requests = [], trace = []\<rparr> =
       (\<lparr>requests = [], trace = [Called (DoneCall None (Some 1))]\<rparr>, Some (UserException 1))
   \<and> exec (map Code (call_fn (done_cb (handlers (setDoneHandler read_word
              (\<lambda>requestId result. invoke_user (DoneCall None (Some result))
                 [Throw (UserException 1)])
              (new_RequestBuilder [])))) 5 [1, 0, 0, 0]) @ [])
        \<lparr>requests = [], trace = []\<rparr> =
       (\<lparr>requests = [], trace = [Called (DoneCall None (Some 1))]\<rparr>, None)"
proof -
  have r: "read_word (primes [1, 0, 0, 0]) = Some 1"
    by (simp add: read_word_def prime_of_bytes_def)
  have u: "exec (map Code (invoke_user (DoneCall None (Some 1)) [Throw (UserException 1)]))
      \<lparr>requests = [], trace = []\<rparr> =
      (\<lparr>requests = [], trace = [Called (DoneCall None (Some (1::mtpPrime)))]\<rparr>,
       Some (UserException 1))"
    by (simp add: invoke_user_def)
  note t = done_handler_exception_absorbed[where read = read_word and result = "[1, 0, 0, 0]"
      and invoke = "\<lambda>requestId result. invoke_user (DoneCall None (Some result))
                 [Throw (UserException 1)]"
      and b = "new_RequestBuilder []" and requestId = 5
      and fs = "[]" and s = "\<lparr>requests = [], trace = []\<rparr>"]
  from t[THEN conjunct2, THEN conjunct1, rule_format, OF r] r u
  show ?thesis by (simp del: exec.simps add: exec.simps(1))
qed

subsection \<open>Handler shapes\<close>

lemma done_builder_first_match:
  assumes "done_first_match handler requestId data = Some (c, body)"
  shows "\<exists>invoke. done_builder read handler b = Inr (setDoneHandler read invoke b) \<and>
           invoke requestId data = invoke_user c body"
  using assms unfolding done_first_match_def done_builder_def
  by (auto split: option.splits if_splits)

lemma fail_builder_first_match:
  assumes "fail_first_match handler requestId error = Some (c, body)"
  shows "\<exists>invoke. fail_builder handler b = Inr (setFailHandler invoke b) \<and>
           invoke requestId error = invoke_user c body"
  using assms unfolding fail_first_match_def fail_builder_def
  by (auto split: option.splits if_splits)

lemma exec_invoke_user:
  "exec (map Code (invoke_user c body) @ fs) s =
     exec (map (\<lambda>x. Code (Run x)) body @ fs) (s\<lparr>trace := trace s @ [Called c]\<rparr>)"
  by (simp add: invoke_user_def comp_def)

text \<open>
  C3. For every done handler and every fail handler with a first matching shape
  (in the order (id, response), (response), (id), ()): \<open>done\<close> and \<open>fail\<close> accept it
  and store a canonical two-argument callback; run with an id and bytes that decode to a
  response, the done callback is one \<open>try\<close> block that enters the user handler once,
  with exactly the arguments of the first matching shape, and then does what that call
  does; run with an id and an error, the fail callback enters the user handler once with
  the arguments of the first matching shape.
\<close>

theorem handler_shape_adapted:
  fixes b :: "'r RequestBuilder"
  shows "(\<forall>c body. done_first_match handler requestId data = Some (c, body)
        \<and> read (primes result) = Some data \<longrightarrow>
      (\<exists>b'. done_builder read handler b = Inr b' \<and>
         call_fn (done_cb (handlers b')) requestId result = [TryCatchAll (invoke_user c body)] \<and>
         exec (map Code (call_fn (done_cb (handlers b')) requestId result) @ fs) s =
           exec (map (\<lambda>x. Code (Run x)) body @ EndTry # fs)
             (s\<lparr>trace := trace s @ [Called c]\<rparr>)))
   \<and> (\<forall>c body. fail_first_match fhandler requestId error = Some (c, body) \<longrightarrow>
      (\<exists>b'. fail_builder fhandler b = Inr b' \<and>
         call_fn (fail_cb (handlers b')) requestId error = invoke_user c body \<and>
         exec (map Code (call_fn (fail_cb (handlers b')) requestId error) @ fs) s =
           exec (map (\<lambda>x. Code (Run x)) body @ fs)
             (s\<lparr>trace := trace s @ [Called c]\<rparr>)))"
proof (intro conjI allI impI)
  fix c body
  assume a: "done_first_match handler requestId data = Some (c, body)
      \<and> read (primes result) = Some data"
  then obtain invoke where i: "done_builder read handler b = Inr (setDoneHandler read invoke b)"
    "invoke requestId data = invoke_user c body"
    using done_builder_first_match[of handler requestId data c body read b] by blast
  let ?b' = "setDoneHandler read invoke b"
  from a i(2) have cb: "call_fn (done_cb (handlers ?b')) requestId result =
      [TryCatchAll (invoke_user c body)]"
    by (simp add: setDoneHandler_callback)
  have "exec (map Code [TryCatchAll (invoke_user c body)] @ fs) s =
      exec (map Code (invoke_user c body) @ EndTry # fs) s"
    by simp
  also have "\<dots> = exec (map (\<lambda>x. Code (Run x)) body @ EndTry # fs)
      (s\<lparr>trace := trace s @ [Called c]\<rparr>)"
    by (rule exec_invoke_user)
  finally have "exec (map Code (call_fn (done_cb (handlers ?b')) requestId result) @ fs) s =
      exec (map (\<lambda>x. Code (Run x)) body @ EndTry # fs) (s\<lparr>trace := trace s @ [Called c]\<rparr>)"
    by (simp only: cb)
  with i(1) cb
  show "\<exists>b'. done_builder read handler b = Inr b' \<and>
      call_fn (done_cb (handlers b')) requestId result = [TryCatchAll (invoke_user c body)] \<and>
      exec (map Code (call_fn (done_cb (handlers b')) requestId result) @ fs) s =
        exec (map (\<lambda>x. Code (Run x)) body @ EndTry # fs) (s\<lparr>trace := trace s @ [Called c]\<rparr>)"
    by blast
next
  fix c :: "'r call" and body
  assume a: "fail_first_match fhandler requestId error = Some (c, body)"
  then obtain invoke where i: "fail_builder fhandler b = Inr (setFailHandler invoke b)"
    "invoke requestId error = invoke_user c body"
    using fail_builder_first_match[of fhandler requestId error c body b] by blast
  let ?b' = "setFailHandler invoke b"
  from i(2) have cb: "call_fn (fail_cb (handlers ?b')) requestId error = invoke_user c body"
    by (simp add: setFailHandler_callback)
  have "exec (map Code (call_fn (fail_cb (handlers ?b')) requestId error) @ fs) s =
      exec (map (\<lambda>x. Code (Run x)) body @ fs) (s\<lparr>trace := trace s @ [Called c]\<rparr>)"
    by (simp only: cb exec_invoke_user)
  with i(1) cb
  show "\<exists>b'. fail_builder fhandler b = Inr b' \<and>
      call_fn (fail_cb (handlers b')) requestId error = invoke_user c body \<and>
      exec (map Code (call_fn (fail_cb (handlers b')) requestId error) @ fs) s =
        exec (map (\<lambda>x. Code (Run x)) body @ fs) (s\<lparr>trace := trace s @ [Called c]\<rparr>)"
    by blast
qed

theorem handler_shape_adapted_witness:
  "done_first_match overloaded_handler 5 1 = Some (DoneCall (Some 5) (Some 1), [Cancel 1])
   \<and> read_word (primes [1, 0, 0, 0]) = Some 1
   \<and> (\<exists>b'. done_builder read_word overloaded_handler (new_RequestBuilder []) = Inr b' \<and>
          call_fn (done_cb (handlers b')) 5 [1, 0, 0, 0] =
            [TryCatchAll (invoke_user (DoneCall (Some 5) (Some 1)) [Cancel 1])])
   \<and> fail_first_match error_only_handler 5
         \<lparr>flood_class = True, handled_elsewhere = False, description = ''FLOOD_WAIT''\<rparr> =
       Some (FailCall None
               (Some \<lparr>flood_class = True, handled_elsewhere = False,
                      description = ''FLOOD_WAIT''\<rparr>) :: mtpPrime call,
             [Cancel 2])
   \<and> (\<exists>b'. fail_builder error_only_handler (new_RequestBuilder [] :: mtpPrime RequestBuilder) =
            Inr b' \<and>
          call_fn (fail_cb (handlers b')) 5
            \<lparr>flood_class = True, handled_elsewhere = False, description = ''FLOOD_WAIT''\<rparr> =
            invoke_user
              (FailCall None
                 (Some \<lparr>flood_class = True, handled_elsewhere = False,
                        description = ''FLOOD_WAIT''\<rparr>))
              [Cancel 2])"
proof -
  let ?e = "\<lparr>flood_class = True, handled_elsewhere = False, description = ''FLOOD_WAIT''\<rparr>"
  have d: "done_first_match overloaded_handler 5 1 =
      Some (DoneCall (Some 5) (Some 1), [Cancel 1])"
    by (simp add: done_first_match_def overloaded_handler_def)
  have r: "read_word (primes [1, 0, 0, 0]) = Some 1"
    by (simp add: read_word_def prime_of_bytes_def)
  have f: "fail_first_match error_only_handler 5 ?e =
      Some (FailCall None (Some ?e) :: mtpPrime call, [Cancel 2])"
    by (simp add: fail_first_match_def error_only_handler_def)
  note t = handler_shape_adapted[where handler = overloaded_handler and requestId = 5
      and data = 1 and read = read_word and result = "[1, 0, 0, 0]"
      and b = "new_RequestBuilder []" and fs = "[]" and s = "\<lparr>requests = [], trace = []\<rparr>"
      and fhandler = error_only_handler and error = ?e]
  from t[THEN conjunct1, rule_format, OF conjI[OF d r]]
  have one: "\<exists>b'. done_builder read_word overloaded_handler (new_RequestBuilder []) = Inr b' \<and>
      call_fn (done_cb (handlers b')) 5 [1, 0, 0, 0] =
        [TryCatchAll (invoke_user (DoneCall (Some 5) (Some 1)) [Cancel 1])]"
    by blast
  from t[THEN conjunct2, rule_format, OF f]
  have two: "\<exists>b'. fail_builder error_only_handler
        (new_RequestBuilder [] :: mtpPrime RequestBuilder) = Inr b' \<and>
      call_fn (fail_cb (handlers b')) 5 ?e = invoke_user (FailCall None (Some ?e)) [Cancel 2]"
    by blast
  from d r one f two show ?thesis by blast
qed

lemma done_builder_callback:
  assumes "done_builder read handler b = Inr b'" and "read (primes result) = Some data"
  shows "\<exists>c body. done_first_match handler requestId data = Some (c, body) \<and>
           call_fn (done_cb (handlers b')) requestId result =
             [TryCatchAll (invoke_user c body)]"
  using assms unfolding done_first_match_def done_builder_def
  by (auto simp: setDoneHandler_callback split: option.splits)

text \<open>
  C10. For every done handler whose first matching shape is a reduced one, (response),
  (id) or (): the stored callback decodes the bytes first; when they do not decode, the
  callback is the same code as for a handler of the full shape, enters no user handler
  and changes nothing; when they decode, the user handler is entered, with the arguments
  of its shape, which are not the full pair.
\<close>

theorem reduced_shape_decodes:
  assumes "on_id_response handler = None" and "done_builder read handler b = Inr b'"
  shows "(read (primes result) = None \<longrightarrow>
            call_fn (done_cb (handlers b')) requestId result =
              [TryCatchAll [Run (Throw DecodeFailure)]] \<and>
            exec (map Code (call_fn (done_cb (handlers b')) requestId result) @ fs) s =
              exec fs s)
       \<and> (\<forall>data. read (primes result) = Some data \<longrightarrow>
            (\<exists>c body. done_first_match handler requestId data = Some (c, body) \<and>
               c \<noteq> DoneCall (Some requestId) (Some data) \<and>
               call_fn (done_cb (handlers b')) requestId result =
                 [TryCatchAll (invoke_user c body)]))
       \<and> (\<forall>full bf. on_id_response full \<noteq> None \<and> done_builder read full b = Inr bf \<and>
              read (primes result) = None \<longrightarrow>
            call_fn (done_cb (handlers bf)) requestId result =
              call_fn (done_cb (handlers b')) requestId result)"
proof (intro conjI allI impI)
  assume n: "read (primes result) = None"
  from done_builder_is_setDoneHandler[OF assms(2)] obtain invoke
    where b': "b' = setDoneHandler read invoke b" by blast
  from n show cb: "call_fn (done_cb (handlers b')) requestId result =
      [TryCatchAll [Run (Throw DecodeFailure)]]"
    by (simp add: b' setDoneHandler_callback)
  show "exec (map Code (call_fn (done_cb (handlers b')) requestId result) @ fs) s = exec fs s"
    by (simp add: cb)
next
  fix data
  assume r: "read (primes result) = Some data"
  from done_builder_callback[OF assms(2) r, of requestId] obtain c body
    where m: "done_first_match handler requestId data = Some (c, body)"
      and cb: "call_fn (done_cb (handlers b')) requestId result =
        [TryCatchAll (invoke_user c body)]"
    by blast
  from m assms(1) have "c \<noteq> DoneCall (Some requestId) (Some data)"
    by (auto simp: done_first_match_def split: if_splits)
  with m cb show "\<exists>c body. done_first_match handler requestId data = Some (c, body) \<and>
      c \<noteq> DoneCall (Some requestId) (Some data) \<and>
      call_fn (done_cb (handlers b')) requestId result = [TryCatchAll (invoke_user c body)]"
    by blast
next
  fix full bf
  assume a: "on_id_response full \<noteq> None \<and> done_builder read full b = Inr bf \<and>
      read (primes result) = None"
  then obtain f where bf: "bf = setDoneHandler read f b"
    using done_builder_is_setDoneHandler by blast
  from done_builder_is_setDoneHandler[OF assms(2)] obtain invoke
    where b': "b' = setDoneHandler read invoke b" by blast
  from a show "call_fn (done_cb (handlers bf)) requestId result =
      call_fn (done_cb (handlers b')) requestId result"
    by (simp add: bf b' setDoneHandler_callback)
qed

theorem reduced_shape_decodes_witness:
  "on_id_response nullary_handler = None
   \<and> done_builder read_word nullary_handler (new_RequestBuilder []) =
       Inr (setDoneHandler read_word
              (\<lambda>requestId result. invoke_user (DoneCall None None) [Cancel 4])
              (new_RequestBuilder []))
   \<and> read_word (primes [1, 2, 3]) = None
   \<and> exec (map Code (call_fn (done_cb (handlers (setDoneHandler read_word
              (\<lambda>requestId result. invoke_user (DoneCall None None) [Cancel 4])
              (new_RequestBuilder [])))) 5 [1, 2, 3]) @ [])
        \<lparr>requests = [], trace = []\<rparr> =
       (\<lparr>requests = [], trace = []\<rparr>, None)
   \<and> read_word (primes [1, 0, 0, 0]) = Some 1
   \<and> call_fn (done_cb (handlers (setDoneHandler read_word
              (\<lambda>requestId result. invoke_user (DoneCall None None) [Cancel 4])
              (new_RequestBuilder [])))) 5 [1, 0, 0, 0] =
       [TryCatchAll (invoke_user (DoneCall None None) [Cancel 4])]"
proof -
  let ?b' = "setDoneHandler read_word
      (\<lambda>requestId result. invoke_user (DoneCall None None) [Cancel 4])
      (new_RequestBuilder [])"
  have h: "on_id_response nullary_handler = None"
    by (simp add: nullary_handler_def)
  have d: "done_builder read_word nullary_handler (new_RequestBuilder []) = Inr ?b'"
    by (simp add: done_builder_def nullary_handler_def)
  have r0: "read_word (primes [1, 2, 3]) = None"
    by (simp add: read_word_def)
  have r1: "read_word (primes [1, 0, 0, 0]) = Some 1"
    by (simp add: read_word_def prime_of_bytes_def)
  have m: "done_first_match nullary_handler 5 (1::mtpPrime) = Some (DoneCall None None, [Cancel 4])"
    by (simp add: done_first_match_def nullary_handler_def)
  note t0 = reduced_shape_decodes[OF h d, where result = "[1, 2, 3]" and requestId = 5
      and fs = "[]" and s = "\<lparr>requests = [], trace = []\<rparr>"]
  note t1 = reduced_shape_decodes[OF h d, where result = "[1, 0, 0, 0]" and requestId = 5
      and fs = "[]" and s = "\<lparr>requests = [], trace = []\<rparr>"]
  from t0[THEN conjunct1, rule_format, OF r0]
  have one: "exec (map Code (call_fn (done_cb (handlers ?b')) 5 [1, 2, 3]) @ [])
      \<lparr>requests = [], trace = []\<rparr> = (\<lparr>requests = [], trace = []\<rparr>, None)"
    by (elim conjE) (simp del: exec.simps add: exec.simps(1))
  from t1[THEN conjunct2, THEN conjunct1, rule_format, OF r1] m
  have two: "call_fn (done_cb (handlers ?b')) 5 [1, 0, 0, 0] =
      [TryCatchAll (invoke_user (DoneCall None None) [Cancel 4])]"
    by auto
  from h d r0 one r1 two show ?thesis by blast
qed

subsection \<open>Handlers of no recognized shape\<close>

text \<open>
  C7. \<open>done\<close> fails to build (the \<open>static_assert\<close> branch) exactly for the handlers
  that answer to none of the four done signatures, and \<open>fail\<close> exactly for those that
  answer to none of the four fail signatures: no builder results, so nothing can be
  sent. A handler that is accepted is stored as the builder's callback, never dropped.
\<close>

theorem bad_handler_rejected:
  fixes b :: "'r RequestBuilder"
  shows "(done_builder read handler b = Inl BadDoneHandler \<longleftrightarrow>
            on_id_response handler = None \<and> on_response handler = None \<and>
            on_id handler = None \<and> on_nothing handler = None)
       \<and> (fail_builder fhandler b = Inl BadFailHandler \<longleftrightarrow>
            on_id_error fhandler = None \<and> on_error fhandler = None \<and>
            on_id_only fhandler = None \<and> on_no_args fhandler = None)
       \<and> (\<forall>b'. done_builder read handler b = Inr b' \<longrightarrow>
            done_first_match handler requestId data \<noteq> None \<and> done_cb (handlers b') \<noteq> None)
       \<and> (\<forall>b'. fail_builder fhandler b = Inr b' \<longrightarrow>
            (fail_first_match fhandler requestId error :: ('r call \<times> cmd list) option) \<noteq> None \<and>
            fail_cb (handlers b') \<noteq> None)
       \<and> done_builder read handler b \<noteq> Inl BadFailHandler
       \<and> fail_builder fhandler b \<noteq> Inl BadDoneHandler"
proof (intro conjI allI impI)
  show "done_builder read handler b = Inl BadDoneHandler \<longleftrightarrow>
      on_id_response handler = None \<and> on_response handler = None \<and>
      on_id handler = None \<and> on_nothing handler = None"
    by (simp add: done_builder_def split: option.splits)
  show "fail_builder fhandler b = Inl BadFailHandler \<longleftrightarrow>
      on_id_error fhandler = None \<and> on_error fhandler = None \<and>
      on_id_only fhandler = None \<and> on_no_args fhandler = None"
    by (simp add: fail_builder_def split: option.splits)
  show "done_builder read handler b \<noteq> Inl BadFailHandler"
    by (simp add: done_builder_def split: option.splits)
  show "fail_builder fhandler b \<noteq> Inl BadDoneHandler"
    by (simp add: fail_builder_def split: option.splits)
next
  fix b'
  assume a: "done_builder read handler b = Inr b'"
  then show "done_first_match handler requestId data \<noteq> None"
    by (auto simp: done_builder_def done_first_match_def split: option.splits)
  from done_builder_is_setDoneHandler[OF a] show "done_cb (handlers b') \<noteq> None"
    by (auto simp: setDoneHandler_def)
next
  fix b'
  assume a: "fail_builder fhandler b = Inr b'"
  then show "(fail_first_match fhandler requestId error :: ('r call \<times> cmd list) option) \<noteq> None"
    by (auto simp: fail_builder_def fail_first_match_def split: option.splits)
  from a show "fail_cb (handlers b') \<noteq> None"
    by (auto simp: fail_builder_def setFailHandler_def split: option.splits)
qed

theorem bad_handler_rejected_witness:
  "done_builder read_word shapeless_done (new_RequestBuilder []) = Inl BadDoneHandler
   \<and> fail_builder shapeless_fail (new_RequestBuilder [] :: mtpPrime RequestBuilder) =
       Inl BadFailHandler
   \<and> done_builder read_word nullary_handler (new_RequestBuilder []) \<noteq> Inl BadDoneHandler"
proof -
  note t = bad_handler_rejected[where read = read_word and handler = shapeless_done
      and fhandler = shapeless_fail and b = "new_RequestBuilder []"]
  note u = bad_handler_rejected[where read = read_word and handler = nullary_handler
      and fhandler = shapeless_fail and b = "new_RequestBuilder []"]
  from t[THEN conjunct1] have one:
    "done_builder read_word shapeless_done (new_RequestBuilder []) = Inl BadDoneHandler"
    by (simp add: shapeless_done_def)
  from t[THEN conjunct2, THEN conjunct1] have two:
    "fail_builder shapeless_fail (new_RequestBuilder [] :: mtpPrime RequestBuilder) =
       Inl BadFailHandler"
    by (simp add: shapeless_fail_def)
  from u[THEN conjunct1] have three:
    "done_builder read_word nullary_handler (new_RequestBuilder []) \<noteq> Inl BadDoneHandler"
    by (simp add: nullary_handler_def)
  from one two three show ?thesis by blast
qed

subsection \<open>Failure policy\<close>

lemma fail_fired_count:
  assumes "take_request k (requests s) = Some (h, rest)"
  shows "occurrences (FailFired k)
           (trace (fst (exec (Code (Run (DeliverFail p k e)) # fs) s))) =
         occurrences (FailFired k) (trace s) + (if suppressed p e then 0 else 1)"
proof -
  have gone: "k \<notin> registered (s\<lparr>requests := rest, trace := t\<rparr>)" for t
    using take_request_SomeD(4)[OF assms] by (simp add: registered_def)
  have o: "outcome_of (FailFired k :: 'a event) = Some k" by simp
  show ?thesis
  proof (cases "suppressed p e")
    case True
    let ?s' = "s\<lparr>requests := rest, trace := trace s @ [Dropped k]\<rparr>"
    have "exec (Code (Run (DeliverFail p k e)) # fs) s = exec fs ?s'"
      using True by (simp only: exec_deliverFail_present[OF assms] if_True)
    moreover have "occurrences (FailFired k) (trace (fst (exec fs ?s'))) =
        occurrences (FailFired k) (trace ?s')"
      by (rule occurrences_after_removal[OF gone o])
    ultimately show ?thesis using True by (simp del: exec.simps)
  next
    case False
    let ?s' = "s\<lparr>requests := rest, trace := trace s @ [FailFired k]\<rparr>"
    let ?fs = "map Code (call_fn (fail_cb h) k e) @ fs"
    have "exec (Code (Run (DeliverFail p k e)) # fs) s = exec ?fs ?s'"
      using False by (simp only: exec_deliverFail_present[OF assms] if_False)
    moreover have "occurrences (FailFired k) (trace (fst (exec ?fs ?s'))) =
        occurrences (FailFired k) (trace ?s')"
      by (rule occurrences_after_removal[OF gone o])
    ultimately show ?thesis using False by (simp del: exec.simps)
  qed
qed

text \<open>
  C4. For a pending request with a fail handler and a fail delivery for its id: under
  \<open>HandleAll\<close> the fail callback runs, and fires exactly once, for any error; under
  \<open>HandleFlood\<close>, which \<open>handleFloodErrors()\<close> selects, it does so for a flood-class
  error; under \<open>Simple\<close>, the builder's default, an error of the flood class or of a
  class handled elsewhere removes the entry and the fail callback does not fire. The
  policy that a delivery carries is the one the builder had at \<open>send\<close>.
\<close>

theorem fail_policy_applied:
  assumes "take_request k (requests s) = Some (h, rest)" and "fail_cb h = Some f"
  shows "exec (Code (Run (DeliverFail HandleAll k e)) # fs) s =
           exec (map Code (f k e) @ fs) (s\<lparr>requests := rest, trace := trace s @ [FailFired k]\<rparr>)
       \<and> occurrences (FailFired k)
           (trace (fst (exec (Code (Run (DeliverFail HandleAll k e)) # fs) s))) =
         occurrences (FailFired k) (trace s) + 1
       \<and> (flood_class e \<longrightarrow>
            exec (Code (Run (DeliverFail HandleFlood k e)) # fs) s =
              exec (map Code (f k e) @ fs)
                (s\<lparr>requests := rest, trace := trace s @ [FailFired k]\<rparr>) \<and>
            occurrences (FailFired k)
              (trace (fst (exec (Code (Run (DeliverFail HandleFlood k e)) # fs) s))) =
            occurrences (FailFired k) (trace s) + 1)
       \<and> (flood_class e \<or> handled_elsewhere e \<longrightarrow>
            exec (Code (Run (DeliverFail Simple k e)) # fs) s =
              exec fs (s\<lparr>requests := rest, trace := trace s @ [Dropped k]\<rparr>) \<and>
            occurrences (FailFired k)
              (trace (fst (exec (Code (Run (DeliverFail Simple k e)) # fs) s))) =
            occurrences (FailFired k) (trace s))
       \<and> failSkipPolicy (handleAllErrors b) = HandleAll
       \<and> failSkipPolicy (handleFloodErrors b) = HandleFlood
       \<and> failSkipPolicy (new_RequestBuilder request :: 'r RequestBuilder) = Simple
       \<and> (\<forall>j sub s1. send b j s0 = Inr (j, sub, s1) \<longrightarrow>
            transport_fail sub j e = DeliverFail (failSkipPolicy b) j e)"
proof -
  note ex = exec_deliverFail_present[OF assms(1), of _ e fs]
  note cnt = fail_fired_count[OF assms(1), of _ e fs]
  have cf: "call_fn (fail_cb h) k e = f k e"
    using assms(2) by (simp add: call_fn_def)
  have all1: "exec (Code (Run (DeliverFail HandleAll k e)) # fs) s =
      exec (map Code (f k e) @ fs) (s\<lparr>requests := rest, trace := trace s @ [FailFired k]\<rparr>)"
    by (simp only: ex[of HandleAll] suppressed.simps if_False cf)
  have all2: "occurrences (FailFired k)
      (trace (fst (exec (Code (Run (DeliverFail HandleAll k e)) # fs) s))) =
      occurrences (FailFired k) (trace s) + 1"
    by (simp only: cnt[of HandleAll] suppressed.simps if_False)
  have flood: "exec (Code (Run (DeliverFail HandleFlood k e)) # fs) s =
        exec (map Code (f k e) @ fs)
          (s\<lparr>requests := rest, trace := trace s @ [FailFired k]\<rparr>) \<and>
      occurrences (FailFired k)
        (trace (fst (exec (Code (Run (DeliverFail HandleFlood k e)) # fs) s))) =
      occurrences (FailFired k) (trace s) + 1" if "flood_class e"
  proof
    from that show "exec (Code (Run (DeliverFail HandleFlood k e)) # fs) s =
        exec (map Code (f k e) @ fs) (s\<lparr>requests := rest, trace := trace s @ [FailFired k]\<rparr>)"
      by (simp add: ex[of HandleFlood] cf del: exec.simps)
    from that show "occurrences (FailFired k)
        (trace (fst (exec (Code (Run (DeliverFail HandleFlood k e)) # fs) s))) =
        occurrences (FailFired k) (trace s) + 1"
      by (simp add: cnt[of HandleFlood] del: exec.simps)
  qed
  have simple: "exec (Code (Run (DeliverFail Simple k e)) # fs) s =
        exec fs (s\<lparr>requests := rest, trace := trace s @ [Dropped k]\<rparr>) \<and>
      occurrences (FailFired k)
        (trace (fst (exec (Code (Run (DeliverFail Simple k e)) # fs) s))) =
      occurrences (FailFired k) (trace s)" if "flood_class e \<or> handled_elsewhere e"
  proof
    from that show "exec (Code (Run (DeliverFail Simple k e)) # fs) s =
        exec fs (s\<lparr>requests := rest, trace := trace s @ [Dropped k]\<rparr>)"
      by (simp add: ex[of Simple] del: exec.simps)
    from that show "occurrences (FailFired k)
        (trace (fst (exec (Code (Run (DeliverFail Simple k e)) # fs) s))) =
        occurrences (FailFired k) (trace s)"
      by (simp add: cnt[of Simple] del: exec.simps)
  qed
  have pol: "failSkipPolicy (handleAllErrors b) = HandleAll"
    "failSkipPolicy (handleFloodErrors b) = HandleFlood"
    "failSkipPolicy (new_RequestBuilder request :: 'r RequestBuilder) = Simple"
    by (simp_all add: handleAllErrors_def handleFloodErrors_def setFailSkipPolicy_def
        new_RequestBuilder_def)
  have snd: "transport_fail sub j e = DeliverFail (failSkipPolicy b) j e"
    if "send b j s0 = Inr (j, sub, s1)" for j sub s1
    using that by (auto simp: send_def transport_fail_def split: sum.splits)
  from all1 all2 flood simple pol snd show ?thesis by blast
qed

theorem fail_policy_applied_witness:
  "take_request 1 (requests pending_sender) =
     Some (\<lparr>done_cb = None, fail_cb = Some noting_fail\<rparr>, [])
   \<and> flood_class flood_error
   \<and> run [DeliverFail HandleFlood 1 flood_error] pending_sender =
       (\<lparr>requests = [], trace = [FailFired 1, Called (FailCall None (Some flood_error))]\<rparr>, None)
   \<and> run [DeliverFail Simple 1 flood_error] pending_sender =
       (\<lparr>requests = [], trace = [Dropped 1]\<rparr>, None)
   \<and> occurrences (FailFired 1)
        (trace (fst (run [DeliverFail HandleAll 1 flood_error] pending_sender))) = 1"
proof -
  have tk: "take_request 1 (requests pending_sender) =
      Some (\<lparr>done_cb = None, fail_cb = Some noting_fail\<rparr>, [])"
    by (simp add: take_request_def pending_sender_def)
  have fc: "fail_cb \<lparr>done_cb = None, fail_cb = Some noting_fail\<rparr> = Some noting_fail"
    by simp
  have fl: "flood_class flood_error"
    by (simp add: flood_error_def)
  note t = fail_policy_applied[OF tk fc, where e = flood_error and fs = "[]"]
  from t[THEN conjunct2, THEN conjunct2, THEN conjunct1, rule_format, OF fl, THEN conjunct1]
  have one: "run [DeliverFail HandleFlood 1 flood_error] pending_sender =
      (\<lparr>requests = [], trace = [FailFired 1, Called (FailCall None (Some flood_error))]\<rparr>, None)"
    by (simp add: run_def noting_fail_def invoke_user_def pending_sender_def)
  from t[THEN conjunct2, THEN conjunct2, THEN conjunct2, THEN conjunct1, rule_format,
      OF disjI1[OF fl], THEN conjunct1]
  have two: "run [DeliverFail Simple 1 flood_error] pending_sender =
      (\<lparr>requests = [], trace = [Dropped 1]\<rparr>, None)"
    by (simp add: run_def pending_sender_def)
  from t[THEN conjunct2, THEN conjunct1]
  have three: "occurrences (FailFired 1)
      (trace (fst (run [DeliverFail HandleAll 1 flood_error] pending_sender))) = 1"
    by (simp add: run_def pending_sender_def del: exec.simps)
  from tk fl one two three show ?thesis by blast
qed

subsection \<open>Cancellation\<close>

lemma callbacks_simps [simp]:
  "callbacks [] = []"
  "callbacks (t @ u) = callbacks t @ callbacks u"
  "callbacks (Dropped k # t) = callbacks t"
  by (simp_all add: callbacks_def)

lemma callbacks_dropped: "callbacks (map (\<lambda>p. Dropped (fst p)) reqs) = []"
  by (induction reqs) simp_all

lemma map_of_filter_other:
  "j \<noteq> k \<Longrightarrow> map_of (filter (\<lambda>p. fst p \<noteq> k) reqs) j = map_of reqs j"
  by (induction reqs) auto

lemma run_nothing_registered:
  assumes "registered s = {}" and "\<forall>c \<in> set cs. target c \<noteq> None"
  shows "run cs s = (s, None)"
  using assms(2)
proof (induction cs)
  case Nil
  then show ?case by (simp add: run_def)
next
  case (Cons c cs)
  then obtain k where k: "target c = Some k" by auto
  from assms(1) have "k \<notin> registered s" by simp
  from exec_target_absent[OF k this, of "map (\<lambda>c. Code (Run c)) cs"]
  have "run (c # cs) s = run cs s"
    by (simp add: run_def del: exec.simps)
  with Cons show ?case by simp
qed

lemma cancel_callbacks: "callbacks (trace (cancel k s)) = callbacks (trace s)"
  by (cases "take_request k (requests s)") (auto simp: cancel_def)

lemma cancel_gone: "k \<notin> registered (cancel k s)"
proof (cases "k \<in> registered s")
  case True
  from cancel_resolved[OF this] show ?thesis by (rule resolved_absent)
next
  case False
  then show ?thesis by (simp add: cancel_absent)
qed

lemma cancel_others:
  "j \<noteq> k \<Longrightarrow> map_of (requests (cancel k s)) j = map_of (requests s) j"
proof (cases "take_request k (requests s)")
  case None
  then show ?thesis by (simp add: cancel_def)
next
  case (Some hr)
  assume "j \<noteq> k"
  moreover obtain h rest where hr: "hr = (h, rest)" by (cases hr)
  ultimately show ?thesis
    using Some take_request_SomeD(2)[of k "requests s" h rest]
    by (simp add: cancel_def map_of_filter_other)
qed

text \<open>
  C5. \<open>cancelAll\<close> leaves no entry and fires no callback: the trace gains only the
  dropped ids. Afterwards any sequence of deliveries and cancellations leaves the sender
  as it is and raises nothing, and whatever code runs, no done or fail callback fires for
  any id.
\<close>

theorem cancelAll_silences:
  "requests (cancelAll s) = []
   \<and> registered (cancelAll s) = {}
   \<and> callbacks (trace (cancelAll s)) = callbacks (trace s)
   \<and> ((\<forall>c \<in> set cs. target c \<noteq> None) \<longrightarrow> run cs (cancelAll s) = (cancelAll s, None))
   \<and> occurrences (DoneFired k) (trace (fst (exec fs (cancelAll s)))) =
       occurrences (DoneFired k) (trace (cancelAll s))
   \<and> occurrences (FailFired k) (trace (fst (exec fs (cancelAll s)))) =
       occurrences (FailFired k) (trace (cancelAll s))"
proof -
  have r: "requests (cancelAll s) = []" by (simp add: cancelAll_def)
  then have e: "registered (cancelAll s) = {}" by (simp add: registered_def)
  have c: "callbacks (trace (cancelAll s)) = callbacks (trace s)"
    by (simp add: cancelAll_def callbacks_dropped)
  have d: "run cs (cancelAll s) = (cancelAll s, None)" if "\<forall>c \<in> set cs. target c \<noteq> None"
    using e that by (rule run_nothing_registered)
  from e have k: "k \<notin> registered (cancelAll s)" by simp
  have o1: "occurrences (DoneFired k) (trace (fst (exec fs (cancelAll s)))) =
      occurrences (DoneFired k) (trace (cancelAll s))"
    by (rule occurrences_after_removal[OF k]) simp
  have o2: "occurrences (FailFired k) (trace (fst (exec fs (cancelAll s)))) =
      occurrences (FailFired k) (trace (cancelAll s))"
    by (rule occurrences_after_removal[OF k]) simp
  from r e c d o1 o2 show ?thesis by blast
qed

theorem cancelAll_silences_witness:
  "cancelAll two_pending = \<lparr>requests = [], trace = [Dropped 1, Dropped 2]\<rparr>
   \<and> target (DeliverDone 2 [1, 0, 0, 0]) = Some 2
   \<and> target (DeliverFail HandleAll 1 flood_error) = Some 1
   \<and> target (Cancel 1) = Some 1
   \<and> run [DeliverDone 2 [1, 0, 0, 0], DeliverFail HandleAll 1 flood_error, Cancel 1]
        (cancelAll two_pending) =
       (\<lparr>requests = [], trace = [Dropped 1, Dropped 2]\<rparr>, None)
   \<and> run [DeliverDone 2 [1, 0, 0, 0]] two_pending =
       (\<lparr>requests = [(1, \<lparr>done_cb = None, fail_cb = Some noting_fail\<rparr>)],
         trace = [DoneFired 2, Called (DoneCall None None)]\<rparr>, None)"
proof -
  have ca: "cancelAll two_pending = \<lparr>requests = [], trace = [Dropped 1, Dropped 2]\<rparr>"
    by (simp add: cancelAll_def two_pending_def)
  have tg: "\<forall>c \<in> set [DeliverDone 2 [1, 0, 0, 0], DeliverFail HandleAll 1 flood_error, Cancel 1].
      target c \<noteq> None"
    by simp
  note t = cancelAll_silences[where s = two_pending
      and cs = "[DeliverDone 2 [1, 0, 0, 0], DeliverFail HandleAll 1 flood_error, Cancel 1]"]
  from t[THEN conjunct2, THEN conjunct2, THEN conjunct2, THEN conjunct1, THEN mp, OF tg]
  have one: "run [DeliverDone 2 [1, 0, 0, 0], DeliverFail HandleAll 1 flood_error, Cancel 1]
      (cancelAll two_pending) = (\<lparr>requests = [], trace = [Dropped 1, Dropped 2]\<rparr>, None)"
    by (simp only: ca)
  have two: "run [DeliverDone 2 [1, 0, 0, 0]] two_pending =
      (\<lparr>requests = [(1, \<lparr>done_cb = None, fail_cb = Some noting_fail\<rparr>)],
        trace = [DoneFired 2, Called (DoneCall None None)]\<rparr>, None)"
    by (simp add: run_def two_pending_def deliverDone_def take_request_def call_fn_def)
  from ca one two show ?thesis by simp
qed

text \<open>
  C6. \<open>cancel(id)\<close> removes the entry of the id, leaves the other entries as they are,
  runs no callback code and fires no callback. It is idempotent: cancelling again, or
  cancelling an id that was never registered or that a delivery or cancellation has
  already resolved, leaves the sender as it is. \<open>SentRequestWrap::cancel\<close> and
  \<open>requestCanceller\<close> do the same.
\<close>

theorem cancel_idempotent:
  "k \<notin> registered (cancel k s)
   \<and> (\<forall>j. j \<noteq> k \<longrightarrow> map_of (requests (cancel k s)) j = map_of (requests s) j)
   \<and> callbacks (trace (cancel k s)) = callbacks (trace s)
   \<and> run [Cancel k] s = (cancel k s, None)
   \<and> cancel k (cancel k s) = cancel k s
   \<and> (k \<notin> registered s \<longrightarrow> cancel k s = s)
   \<and> (target c = Some k \<longrightarrow>
        cancel k (fst (exec (Code (Run c) # fs) s)) = fst (exec (Code (Run c) # fs) s))
   \<and> SentRequestWrap_cancel k s = cancel k s
   \<and> requestCanceller k s = cancel k s"
proof -
  have a: "k \<notin> registered (cancel k s)" by (rule cancel_gone)
  have b: "\<forall>j. j \<noteq> k \<longrightarrow> map_of (requests (cancel k s)) j = map_of (requests s) j"
    by (simp add: cancel_others)
  have c: "callbacks (trace (cancel k s)) = callbacks (trace s)" by (rule cancel_callbacks)
  have d: "run [Cancel k] s = (cancel k s, None)" by (simp add: run_def)
  have e: "cancel k (cancel k s) = cancel k s" using a by (rule cancel_absent)
  have f: "cancel k s = s" if "k \<notin> registered s" using that by (rule cancel_absent)
  have g: "cancel k (fst (exec (Code (Run c) # fs) s)) = fst (exec (Code (Run c) # fs) s)"
    if "target c = Some k"
    using exec_target_gone[OF that] by (rule cancel_absent)
  have h: "SentRequestWrap_cancel k s = cancel k s" "requestCanceller k s = cancel k s"
    by (simp_all add: SentRequestWrap_cancel_def requestCanceller_def)
  from a b c d e f g h show ?thesis by blast
qed

theorem cancel_idempotent_witness:
  "cancel 2 two_pending =
     \<lparr>requests = [(1, \<lparr>done_cb = None, fail_cb = Some noting_fail\<rparr>)], trace = [Dropped 2]\<rparr>
   \<and> cancel 2 (cancel 2 two_pending) = cancel 2 two_pending
   \<and> 3 \<notin> registered two_pending
   \<and> cancel 3 two_pending = two_pending
   \<and> target (DeliverFail HandleAll 1 flood_error) = Some 1
   \<and> cancel 1 (fst (exec [Code (Run (DeliverFail HandleAll 1 flood_error))] two_pending)) =
       fst (exec [Code (Run (DeliverFail HandleAll 1 flood_error))] two_pending)"
proof -
  have c2: "cancel 2 two_pending =
      \<lparr>requests = [(1, \<lparr>done_cb = None, fail_cb = Some noting_fail\<rparr>)], trace = [Dropped 2]\<rparr>"
    by (simp add: cancel_def take_request_def two_pending_def)
  have r3: "3 \<notin> registered two_pending"
    by (simp add: registered_def two_pending_def)
  have tg: "target (DeliverFail HandleAll 1 flood_error) = Some 1" by simp
  note t2 = cancel_idempotent[where k = 2 and s = two_pending]
  note t3 = cancel_idempotent[where k = 3 and s = two_pending]
  note t1 = cancel_idempotent[where k = 1 and s = two_pending
      and c = "DeliverFail HandleAll 1 flood_error" and fs = "[]"]
  have i: "cancel 2 (cancel 2 two_pending) = cancel 2 two_pending"
    using t2 by blast
  have n: "cancel 3 two_pending = two_pending"
    using t3 r3 by blast
  have g: "cancel 1 (fst (exec [Code (Run (DeliverFail HandleAll 1 flood_error))] two_pending)) =
      fst (exec [Code (Run (DeliverFail HandleAll 1 flood_error))] two_pending)"
    using t1 tg by blast
  from c2 i r3 n tg g show ?thesis by blast
qed

subsection \<open>A request from \<open>send\<close> to its result\<close>

text \<open>
  The pieces together: a builder with a done handler that takes the response only is
  sent under id 5 on an empty sender; the transport delivers four bytes. The handler is
  entered once with the decoded word, and the registry is empty again. With three bytes
  nothing decodes: the entry is consumed and no handler is entered.
\<close>

lemma send_then_done:
  assumes "done_builder read_word response_handler (new_RequestBuilder []) = Inr b"
    and "send b 5 \<lparr>requests = [], trace = []\<rparr> = Inr (5, sub, s)"
  shows "run [transport_done 5 [1, 0, 0, 0]] s =
           (\<lparr>requests = [], trace = [DoneFired 5, Called (DoneCall None (Some 1))]\<rparr>, None)"
    and "run [transport_done 5 [1, 2, 3]] s = (\<lparr>requests = [], trace = [DoneFired 5]\<rparr>, None)"
proof -
  from assms(1) have b: "b = setDoneHandler read_word
      (\<lambda>requestId result. invoke_user (DoneCall None (Some result)) []) (new_RequestBuilder [])"
    by (simp add: done_builder_def response_handler_def)
  from assms(2) have s: "s = \<lparr>requests = [(5, handlers b)], trace = []\<rparr>"
    by (auto simp: send_def register_def registered_def split: sum.splits if_splits)
  show "run [transport_done 5 [1, 0, 0, 0]] s =
      (\<lparr>requests = [], trace = [DoneFired 5, Called (DoneCall None (Some 1))]\<rparr>, None)"
    by (simp add: run_def transport_done_def s b deliverDone_def take_request_def call_fn_def
        setDoneHandler_def new_RequestBuilder_def read_word_def prime_of_bytes_def
        invoke_user_def)
  show "run [transport_done 5 [1, 2, 3]] s = (\<lparr>requests = [], trace = [DoneFired 5]\<rparr>, None)"
    by (simp add: run_def transport_done_def s b deliverDone_def take_request_def call_fn_def
        setDoneHandler_def new_RequestBuilder_def read_word_def)
qed

end
